theory Spec2Isabelle
  imports Main
begin

section \<open>The deploy task of fastly-tools (src/tasks/deploy.js)\<close>

text \<open>
  The function \<^verbatim>\<open>task(folder, opts)\<close> drives a remote configuration client through
  one deployment. It is modelled by explicit state passing: the state of a run holds
  the process environment, the state of the remote system behind the client, the
  remote calls made so far (each with the way its promise settled) and the calls made
  to the logger. Every \<^verbatim>\<open>throw\<close> and every rejected promise is a value of type
  \<open>thrown\<close>; the generator passed to \<^verbatim>\<open>co\<close> returns a sum.

  The command-line wiring (lines 122-138) and its helper \<^verbatim>\<open>list\<close> are not modelled.
\<close>

subsection \<open>Values\<close>

record service =
  service_id :: string
  service_name :: string
  service_version :: int

record vcl =
  vcl_name :: string
  vcl_content :: string

record clone_response =
  number :: int

record validation_response =
  status :: string
  diagnostics :: "string list"

text \<open>
  A reason is the value a collaborator (the remote client, \<^verbatim>\<open>loadVcl\<close>) rejects or
  throws with. JavaScript allows any value there, also \<^verbatim>\<open>undefined\<close> and \<^verbatim>\<open>null\<close>, on
  which a property read throws; every other value is identified by a description.
\<close>

datatype reason = Undefined | Null | Other string

text \<open>
  What the task can throw: \<^verbatim>\<open>new Error(msg)\<close>; the TypeError the runtime raises on
  reading a property of \<^verbatim>\<open>undefined\<close> or \<^verbatim>\<open>null\<close>; a collaborator's reason; and the
  wrapper of lines 94-96, an Error whose \<^verbatim>\<open>type\<close> is the module's private symbol
  \<^verbatim>\<open>VCL_VALIDATION_ERROR\<close> and whose \<^verbatim>\<open>validation\<close> is the wrapped error.
\<close>

datatype thrown =
    Error string
  | TypeError string reason
  | Foreign reason
  | ValidationError thrown

datatype symbol = VCL_VALIDATION_ERROR

text \<open>\<^verbatim>\<open>err.type\<close>: throws on undefined and null, is the private symbol on the wrapper only.\<close>

fun prop_type :: "thrown \<Rightarrow> thrown + symbol option" where
  "prop_type (Foreign Undefined) = Inl (TypeError ''type'' Undefined)"
| "prop_type (Foreign Null) = Inl (TypeError ''type'' Null)"
| "prop_type (ValidationError e) = Inr (Some VCL_VALIDATION_ERROR)"
| "prop_type e = Inr None"

text \<open>\<^verbatim>\<open>err.validation\<close>, read only where \<^verbatim>\<open>err.type\<close> is the private symbol.\<close>

fun prop_validation :: "thrown \<Rightarrow> thrown" where
  "prop_validation (ValidationError e) = e"
| "prop_validation e = Foreign Undefined"

subsection \<open>Remote calls, the logger, the state of a run\<close>

datatype call =
    GetServices
  | CloneVersion int
  | GetVcl int
  | DeleteVcl int string
  | UpdateVcl int vcl
  | SetVclAsMain int string
  | ValidateVersion int
  | ActivateVersion int

datatype response =
    Services "service list"
  | Cloned clone_response
  | Vcls "vcl list"
  | Validation validation_response
  | Done

datatype settled = Fulfilled response | Rejected reason

text \<open>
  The logger (lib/logger.js) is not among the sources. A run records each call the task
  makes to it, with its argument; what the logger prints of it (the \<^verbatim>\<open>verbose\<close> option
  of line 30 is for the logger alone) is not part of the model. A template literal is
  the list of its pieces: text and interpolated numbers.
\<close>

datatype piece = S string | N int

datatype log_arg = Msg "piece list" | Stack thrown | Obj thrown

datatype log_call =
    LogVerbose log_arg
  | LogInfo log_arg
  | LogError log_arg
  | LogSuccess log_arg
  | LogArt string string

text \<open>
  The client returned by \<^verbatim>\<open>require('fastly')(key, id, opts)\<close>: each method takes the
  state of the remote system to the way its promise settles and the next state.
\<close>

record 's fastly =
  getServices :: "'s \<Rightarrow> (reason + service list) \<times> 's"
  cloneVersion :: "int \<Rightarrow> 's \<Rightarrow> (reason + clone_response) \<times> 's"
  getVcl :: "int \<Rightarrow> 's \<Rightarrow> (reason + vcl list) \<times> 's"
  deleteVcl :: "int \<Rightarrow> string \<Rightarrow> 's \<Rightarrow> (reason + unit) \<times> 's"
  updateVcl :: "int \<Rightarrow> vcl \<Rightarrow> 's \<Rightarrow> (reason + unit) \<times> 's"
  setVclAsMain :: "int \<Rightarrow> string \<Rightarrow> 's \<Rightarrow> (reason + unit) \<times> 's"
  validateVersion :: "int \<Rightarrow> 's \<Rightarrow> (reason + validation_response) \<times> 's"
  activateVersion :: "int \<Rightarrow> 's \<Rightarrow> (reason + unit) \<times> 's"

type_synonym environ = "string \<Rightarrow> string option"

text \<open>
  What the task takes from outside the file: \<^verbatim>\<open>require('dotenv').load()\<close> as a function
  on the environment, the built-in \<^verbatim>\<open>encodeURIComponent\<close>, the client factory and
  \<^verbatim>\<open>loadVcl\<close> (lib/loadVcl.js, which reads the folder and the environment).
\<close>

record 's deps =
  dotenv_load :: "environ \<Rightarrow> environ"
  encodeURIComponent :: "string \<Rightarrow> string"
  require_fastly :: "string \<Rightarrow> string \<Rightarrow> 's fastly"
  loadVcl :: "string \<Rightarrow> string list \<Rightarrow> environ \<Rightarrow> reason + vcl list"

record 's run =
  env :: environ
  remote :: 's
  calls :: "(call \<times> settled) list"
  log :: "log_call list"

type_synonym ('s, 'a) action = "'s run \<Rightarrow> (thrown + 'a) \<times> 's run"

subsection \<open>Options\<close>

text \<open>\<^verbatim>\<open>opts\<close> as the caller passes it: a property that is absent is \<open>None\<close>.\<close>

record opts =
  opts_main :: "string option"
  opts_env :: "bool option"
  opts_service :: "string option"
  opts_vars :: "string list option"
  opts_verbose :: "bool option"

record options =
  options_main :: string
  options_env :: bool
  options_service :: "string option"
  options_vars :: "string list"
  options_verbose :: bool

text \<open>Lines 18-24: \<^verbatim>\<open>Object.assign\<close> of the defaults and \<^verbatim>\<open>opts\<close>.\<close>

definition assign_defaults :: "opts \<Rightarrow> options" where
  "assign_defaults opts =
     \<lparr> options_main = (case opts_main opts of None \<Rightarrow> ''main.vcl'' | Some m \<Rightarrow> m),
       options_env = (case opts_env opts of None \<Rightarrow> False | Some b \<Rightarrow> b),
       options_service = opts_service opts,
       options_vars = (case opts_vars opts of None \<Rightarrow> [] | Some vs \<Rightarrow> vs),
       options_verbose = (case opts_verbose opts of None \<Rightarrow> False | Some b \<Rightarrow> b) \<rparr>"

text \<open>Truthiness of a string that may be undefined or null, and \<^verbatim>\<open>a || b\<close> on such values.\<close>

fun truthy :: "string option \<Rightarrow> bool" where
  "truthy None = False"
| "truthy (Some s) = (s \<noteq> [])"

definition js_or :: "string option \<Rightarrow> string option \<Rightarrow> string option" where
  "js_or a b = (if truthy a then a else b)"

text \<open>\<^verbatim>\<open>process.env[key]\<close>; an undefined key is the property name \<^verbatim>\<open>undefined\<close>.\<close>

definition env_lookup :: "environ \<Rightarrow> string option \<Rightarrow> string option" where
  "env_lookup e key = (case key of None \<Rightarrow> e ''undefined'' | Some k \<Rightarrow> e k)"

text \<open>Line 42.\<close>

definition resolveServiceId :: "environ \<Rightarrow> opts \<Rightarrow> string option" where
  "resolveServiceId e opts = js_or (env_lookup e (opts_service opts)) (opts_service opts)"

subsection \<open>Sequencing\<close>

definition ret :: "'a \<Rightarrow> ('s, 'a) action" where
  "ret x = (\<lambda>r. (Inr x, r))"

definition throw :: "thrown \<Rightarrow> ('s, 'a) action" where
  "throw e = (\<lambda>r. (Inl e, r))"

text \<open>\<^verbatim>\<open>let x = yield m; ...\<close>: the rest runs only when \<open>m\<close> did not throw.\<close>

definition and_then :: "('s, 'a) action \<Rightarrow> ('a \<Rightarrow> ('s, 'b) action) \<Rightarrow> ('s, 'b) action" where
  "and_then m f = (\<lambda>r. case m r of (Inl e, r') \<Rightarrow> (Inl e, r') | (Inr x, r') \<Rightarrow> f x r')"

text \<open>\<^verbatim>\<open>promise.catch(h)\<close>.\<close>

definition catch_with :: "('s, 'a) action \<Rightarrow> (thrown \<Rightarrow> ('s, 'a) action) \<Rightarrow> ('s, 'a) action" where
  "catch_with m h = (\<lambda>r. case m r of (Inl e, r') \<Rightarrow> h e r' | (Inr x, r') \<Rightarrow> (Inr x, r'))"

definition logger :: "log_call \<Rightarrow> ('s, unit) action" where
  "logger c = (\<lambda>r. (Inr (), r\<lparr>log := log r @ [c]\<rparr>))"

text \<open>
  A call of a client method: the remote system moves on, the call is recorded with
  the way it settled, and a rejection is what the \<^verbatim>\<open>yield\<close> throws.
\<close>

definition request ::
  "call \<Rightarrow> ('s \<Rightarrow> (reason + 'a) \<times> 's) \<Rightarrow> ('a \<Rightarrow> response) \<Rightarrow> ('s, 'a) action" where
  "request c method wrap = (\<lambda>r.
     case method (remote r) of
       (Inl e, s') \<Rightarrow> (Inl (Foreign e), r\<lparr>remote := s', calls := calls r @ [(c, Rejected e)]\<rparr>)
     | (Inr x, s') \<Rightarrow> (Inr x, r\<lparr>remote := s', calls := calls r @ [(c, Fulfilled (wrap x))]\<rparr>))"

text \<open>
  \<^verbatim>\<open>xs.map(f)\<close> with a callback that starts a request: every callback runs, in the
  order of the list, whatever the earlier requests come to. The remote system is taken
  to serve the requests in the order they were issued.
\<close>

fun map_calls :: "('a \<Rightarrow> ('s, 'b) action) \<Rightarrow> 'a list \<Rightarrow> 's run \<Rightarrow> (thrown + 'b) list \<times> 's run" where
  "map_calls f [] r = ([], r)"
| "map_calls f (x # xs) r =
     (case f x r of (res, r') \<Rightarrow>
        (case map_calls f xs r' of (ress, r'') \<Rightarrow> (res # ress, r'')))"

text \<open>
  \<^verbatim>\<open>Promise.all\<close>: fulfilled with all the values, or rejected with the reason of the
  first promise to reject (here the first of the list).
\<close>

fun Promise_all :: "(thrown + 'b) list \<Rightarrow> thrown + 'b list" where
  "Promise_all [] = Inr []"
| "Promise_all (Inl e # ps) = Inl e"
| "Promise_all (Inr x # ps) = (case Promise_all ps of Inl e \<Rightarrow> Inl e | Inr xs \<Rightarrow> Inr (x # xs))"

definition yield_all :: "('a \<Rightarrow> ('s, 'b) action) \<Rightarrow> 'a list \<Rightarrow> ('s, 'b list) action" where
  "yield_all f xs = (\<lambda>r. case map_calls f xs r of (ress, r') \<Rightarrow> (Promise_all ress, r'))"

subsection \<open>The task\<close>

text \<open>
  Lines 33-46: the checks that come before the client is created. Past the three checks
  the credential and the service identifier are non-empty strings, so the last case of
  the definition never applies.
\<close>

definition settings :: "options \<Rightarrow> opts \<Rightarrow> environ \<Rightarrow> thrown + string \<times> string" where
  "settings options opts e =
     (if \<not> truthy (options_service options) then
        Inl (Error ''the service parameter is required set to the service id of a environment variable name'')
      else if \<not> truthy (e ''FASTLY_APIKEY'') then
        Inl (Error ''FASTLY_APIKEY not found'')
      else
        (let fastlyApiKey = e ''FASTLY_APIKEY'';
             serviceId = resolveServiceId e opts
         in if \<not> truthy serviceId then Inl (Error ''No service '')
            else (case (fastlyApiKey, serviceId) of
                    (Some k, Some i) \<Rightarrow> Inr (k, i)
                  | _ \<Rightarrow> Inl (Error ''No service ''))))"

text \<open>Lines 50-53.\<close>

definition set_SERVICEID :: "options \<Rightarrow> string \<Rightarrow> ('s, unit) action" where
  "set_SERVICEID options serviceId = (\<lambda>r.
     if ''SERVICEID'' \<in> set (options_vars options)
     then (Inr (), r\<lparr>env := (env r)(''SERVICEID'' \<mapsto> serviceId)\<rparr>)
     else (Inr (), r))"

text \<open>
  Lines 57-107, the calls on the client, one definition for each block of the source
  (the blocks are the ones its comments name).
\<close>

text \<open>Lines 57-59: get the current service; reading \<^verbatim>\<open>service.version\<close> of no service throws.\<close>

definition get_service :: "'s fastly \<Rightarrow> string \<Rightarrow> ('s, service) action" where
  "get_service fastly serviceId =
     and_then (request GetServices (getServices fastly) Services) (\<lambda>services.
     case find (\<lambda>s. service_id s = serviceId) services of
       None \<Rightarrow> throw (TypeError ''version'' Undefined)
     | Some service \<Rightarrow> ret service)"

text \<open>Lines 61-66: clone new version from current active version.\<close>

definition clone_version :: "'s fastly \<Rightarrow> service \<Rightarrow> ('s, int) action" where
  "clone_version fastly service =
     (let activeVersion = service_version service in
      and_then (logger (LogVerbose (Msg [S ''Cloning active version '', N activeVersion,
                                         S '' of '', S (service_name service)]))) (\<lambda>_.
      and_then (request (CloneVersion activeVersion) (cloneVersion fastly activeVersion) Cloned)
        (\<lambda>cloneResponse.
      and_then (logger (LogVerbose (Msg [S ''Successfully cloned version '',
                                         N (number cloneResponse)]))) (\<lambda>_.
      (let newVersion = number cloneResponse in
       and_then (logger (LogInfo (Msg [S ''Cloned new version'']))) (\<lambda>_.
       ret newVersion))))))"

text \<open>Lines 68-74: delete old vcl.\<close>

definition delete_old_vcl :: "'s fastly \<Rightarrow> int \<Rightarrow> ('s, unit) action" where
  "delete_old_vcl fastly newVersion =
     and_then (request (GetVcl newVersion) (getVcl fastly newVersion) Vcls) (\<lambda>oldVcl.
     and_then (yield_all (\<lambda>v.
         and_then (logger (LogVerbose (Msg [S ''Deleting '', S [CHR 0x22], S (vcl_name v),
                                            S [CHR 0x22], S '' for version '', N newVersion]))) (\<lambda>_.
         request (DeleteVcl newVersion (vcl_name v))
                 (deleteVcl fastly newVersion (vcl_name v)) (\<lambda>_. Done))) oldVcl) (\<lambda>_.
     logger (LogInfo (Msg [S ''Deleted old vcl'']))))"

text \<open>Lines 76-84: upload new vcl.\<close>

definition upload_new_vcl :: "'s fastly \<Rightarrow> int \<Rightarrow> vcl list \<Rightarrow> ('s, unit) action" where
  "upload_new_vcl fastly newVersion vcls =
     and_then (logger (LogInfo (Msg [S ''Uploading new VCL'']))) (\<lambda>_.
     and_then (yield_all (\<lambda>v.
         and_then (logger (LogVerbose (Msg [S ''Uploading new VCL '', S (vcl_name v),
                                            S '' with version '', N newVersion]))) (\<lambda>_.
         request (UpdateVcl newVersion \<lparr>vcl_name = vcl_name v, vcl_content = vcl_content v\<rparr>)
                 (updateVcl fastly newVersion \<lparr>vcl_name = vcl_name v, vcl_content = vcl_content v\<rparr>)
                 (\<lambda>_. Done))) vcls) (\<lambda>_.
     ret ()))"

text \<open>Lines 86-88: set the main vcl file.\<close>

definition set_main :: "'s fastly \<Rightarrow> options \<Rightarrow> int \<Rightarrow> ('s, unit) action" where
  "set_main fastly options newVersion =
     and_then (logger (LogInfo (Msg [S ''Set '', S [CHR 0x22], S (options_main options),
                                     S [CHR 0x22], S '' as the main entry point'']))) (\<lambda>_.
     request (SetVclAsMain newVersion (options_main options))
             (setVclAsMain fastly newVersion (options_main options)) (\<lambda>_. Done))"

text \<open>
  Lines 90-98: validate. The handler builds the wrapper \<^verbatim>\<open>error\<close> and then throws
  \<^verbatim>\<open>err\<close>, the reason it was given.
\<close>

definition validate :: "'s fastly \<Rightarrow> int \<Rightarrow> ('s, validation_response) action" where
  "validate fastly newVersion =
     and_then (logger (LogVerbose (Msg [S ''Validate version '', N newVersion]))) (\<lambda>_.
     catch_with
       (request (ValidateVersion newVersion) (validateVersion fastly newVersion) Validation)
       (\<lambda>err. let error = ValidationError err in throw err))"

text \<open>Lines 99-107: activate when the validation says ok, throw otherwise.\<close>

definition activate :: "'s fastly \<Rightarrow> int \<Rightarrow> validation_response \<Rightarrow> ('s, unit) action" where
  "activate fastly newVersion validationResponse =
     and_then
       (if status validationResponse = ''ok'' then
          and_then (logger (LogInfo (Msg [S ''Version  '', N newVersion, S '' looks ok'']))) (\<lambda>_.
          request (ActivateVersion newVersion) (activateVersion fastly newVersion) (\<lambda>_. Done))
        else throw (Error ''VCL failed validation for some unknown reason'')) (\<lambda>_.
     and_then (logger (LogSuccess (Msg
                 [S ''Your VCL has been deployed.  Have a nice cup of tea and relax'']))) (\<lambda>_.
     logger (LogArt ''tea'' ''success'')))"

definition deploy :: "'s fastly \<Rightarrow> options \<Rightarrow> string \<Rightarrow> vcl list \<Rightarrow> ('s, unit) action" where
  "deploy fastly options serviceId vcls =
     and_then (get_service fastly serviceId) (\<lambda>service.
     and_then (clone_version fastly service) (\<lambda>newVersion.
     and_then (delete_old_vcl fastly newVersion) (\<lambda>_.
     and_then (upload_new_vcl fastly newVersion vcls) (\<lambda>_.
     and_then (set_main fastly options newVersion) (\<lambda>_.
     and_then (validate fastly newVersion) (\<lambda>validationResponse.
     activate fastly newVersion validationResponse))))))"

text \<open>Line 55: what \<^verbatim>\<open>loadVcl\<close> throws is thrown on.\<close>

definition load_vcls :: "'s deps \<Rightarrow> string \<Rightarrow> options \<Rightarrow> ('s, vcl list) action" where
  "load_vcls d folder options = (\<lambda>r.
     case loadVcl d folder (options_vars options) (env r) of
       Inl e \<Rightarrow> (Inl (Foreign e), r)
     | Inr vcls \<Rightarrow> (Inr vcls, r))"

text \<open>Lines 32-109: the generator run by \<^verbatim>\<open>co\<close>.\<close>

definition task_co :: "'s deps \<Rightarrow> string \<Rightarrow> opts \<Rightarrow> options \<Rightarrow> ('s, unit) action" where
  "task_co d folder opts options = (\<lambda>r.
     case settings options opts (env r) of
       Inl e \<Rightarrow> (Inl e, r)
     | Inr (fastlyApiKey, serviceId) \<Rightarrow>
         (let fastly = require_fastly d fastlyApiKey (encodeURIComponent d serviceId) in
          and_then (set_SERVICEID options serviceId) (\<lambda>_.
          and_then (load_vcls d folder options) (\<lambda>vcls.
          deploy fastly options serviceId vcls)) r))"

text \<open>
  How the promise returned by \<^verbatim>\<open>task\<close> ends: resolved, rejected, or never settled
  because the handler called \<^verbatim>\<open>exit\<close>.
\<close>

datatype outcome = Resolved | RejectedWith thrown | Exited string

text \<open>
  Modelled from the spec: lib/exit.js is not among the sources. The spec (section 6,
  exit behavior) has it end the process with a non-zero status and a printed message,
  so the run ends at the call, which the outcome records with its message.
\<close>

definition exit :: "string \<Rightarrow> 's run \<Rightarrow> outcome \<times> 's run" where
  "exit msg r = (Exited msg, r)"

text \<open>Lines 110-118: the handler of the final \<^verbatim>\<open>catch\<close>.\<close>

definition task_catch :: "thrown \<Rightarrow> 's run \<Rightarrow> outcome \<times> 's run" where
  "task_catch err r =
     (case prop_type err of
        Inl e \<Rightarrow> (RejectedWith e, r)
      | Inr t \<Rightarrow>
          (if t \<noteq> None \<and> t = Some VCL_VALIDATION_ERROR then
             exit ''Bailing...''
               (r\<lparr>log := log r @ [LogError (Msg [S ''VCL Validation Error'']),
                                  LogError (Obj (prop_validation err))]\<rparr>)
           else
             exit ''Bailing...'' (r\<lparr>log := log r @ [LogError (Stack err)]\<rparr>)))"

text \<open>Lines 26-28: the environment after \<^verbatim>\<open>require('dotenv').load()\<close>, when asked for.\<close>

definition start_env :: "'s deps \<Rightarrow> opts \<Rightarrow> environ \<Rightarrow> environ" where
  "start_env d opts e = (if options_env (assign_defaults opts) then dotenv_load d e else e)"

text \<open>
  Lines 17-119: a run starts from the process environment and the state of the remote
  system, with no call made and nothing logged.
\<close>

definition task :: "'s deps \<Rightarrow> string \<Rightarrow> opts \<Rightarrow> environ \<Rightarrow> 's \<Rightarrow> outcome \<times> 's run" where
  "task d folder opts e s =
     (let options = assign_defaults opts;
          r = \<lparr> env = start_env d opts e, remote = s, calls = [], log = [] \<rparr>
      in case task_co d folder opts options r of
           (Inr u, r') \<Rightarrow> (Resolved, r')
         | (Inl err, r') \<Rightarrow> task_catch err r')"

subsection \<open>The record of a run\<close>

text \<open>
  The calls of a run are a record of what the remote system did: a call is served by
  the client's method for it, and replaying the recorded calls from the state the run
  started in gives the recorded settlements and the state the run ended in.
\<close>

definition settle :: "('a \<Rightarrow> response) \<Rightarrow> (reason + 'a) \<times> 's \<Rightarrow> settled \<times> 's" where
  "settle w p = (case p of (Inl e, s') \<Rightarrow> (Rejected e, s') | (Inr x, s') \<Rightarrow> (Fulfilled (w x), s'))"

fun perform :: "'s fastly \<Rightarrow> call \<Rightarrow> 's \<Rightarrow> settled \<times> 's" where
  "perform f GetServices s = settle Services (getServices f s)"
| "perform f (CloneVersion v) s = settle Cloned (cloneVersion f v s)"
| "perform f (GetVcl v) s = settle Vcls (getVcl f v s)"
| "perform f (DeleteVcl v n) s = settle (\<lambda>_. Done) (deleteVcl f v n s)"
| "perform f (UpdateVcl v x) s = settle (\<lambda>_. Done) (updateVcl f v x s)"
| "perform f (SetVclAsMain v n) s = settle (\<lambda>_. Done) (setVclAsMain f v n s)"
| "perform f (ValidateVersion v) s = settle Validation (validateVersion f v s)"
| "perform f (ActivateVersion v) s = settle (\<lambda>_. Done) (activateVersion f v s)"

fun recorded :: "'s fastly \<Rightarrow> 's \<Rightarrow> (call \<times> settled) list \<Rightarrow> 's \<Rightarrow> bool" where
  "recorded f s [] s' = (s' = s)"
| "recorded f s (ca # cs) s' =
     (fst (perform f (fst ca) s) = snd ca \<and> recorded f (snd (perform f (fst ca) s)) cs s')"

definition step :: "'s fastly \<Rightarrow> 's run \<Rightarrow> (call \<times> settled) list \<Rightarrow> 's run \<Rightarrow> bool" where
  "step f r new r' \<longleftrightarrow>
     calls r' = calls r @ new \<and> recorded f (remote r) new (remote r') \<and> env r' = env r"

text \<open>
  The blocks of the source in their order, and the calls each of them makes.
\<close>

fun stage :: "call \<Rightarrow> nat" where
  "stage GetServices = 1"
| "stage (CloneVersion v) = 2"
| "stage (GetVcl v) = 3"
| "stage (DeleteVcl v n) = 3"
| "stage (UpdateVcl v x) = 4"
| "stage (SetVclAsMain v n) = 5"
| "stage (ValidateVersion v) = 6"
| "stage (ActivateVersion v) = 7"

text \<open>
  The calls made once for each file: the deletions and the uploads.
\<close>

fun file_call :: "call \<Rightarrow> bool" where
  "file_call (DeleteVcl v n) = True"
| "file_call (UpdateVcl v x) = True"
| "file_call c = False"

text \<open>
  A step from the clone to the validation failed: its call was rejected, or the
  validation answered with a status other than ok.
\<close>

fun answer_failed :: "settled \<Rightarrow> bool" where
  "answer_failed (Rejected e) = True"
| "answer_failed (Fulfilled (Validation vr)) = (status vr \<noteq> ''ok'')"
| "answer_failed (Fulfilled y) = False"

definition step_failed :: "call \<times> settled \<Rightarrow> bool" where
  "step_failed x \<longleftrightarrow> 2 \<le> stage (fst x) \<and> stage (fst x) \<le> 6 \<and> answer_failed (snd x)"

text \<open>
  The calls of the blocks that went well: the deletions and the uploads, and the calls
  up to the clone, the deletions, the entry point and the validation.
\<close>

definition deleted :: "int \<Rightarrow> vcl list \<Rightarrow> (call \<times> settled) list" where
  "deleted n old = map (\<lambda>v. (DeleteVcl n (vcl_name v), Fulfilled Done)) old"

definition uploaded :: "int \<Rightarrow> vcl list \<Rightarrow> (call \<times> settled) list" where
  "uploaded n vcls = map (\<lambda>v. (UpdateVcl n v, Fulfilled Done)) vcls"

definition upto_clone :: "service list \<Rightarrow> service \<Rightarrow> clone_response \<Rightarrow> (call \<times> settled) list" where
  "upto_clone ss svc c =
     [(GetServices, Fulfilled (Services ss)),
      (CloneVersion (service_version svc), Fulfilled (Cloned c))]"

definition upto_delete ::
  "service list \<Rightarrow> service \<Rightarrow> clone_response \<Rightarrow> vcl list \<Rightarrow> (call \<times> settled) list" where
  "upto_delete ss svc c old =
     upto_clone ss svc c @ (GetVcl (number c), Fulfilled (Vcls old)) # deleted (number c) old"

definition upto_main ::
  "service list \<Rightarrow> service \<Rightarrow> clone_response \<Rightarrow> vcl list \<Rightarrow> vcl list \<Rightarrow> string
     \<Rightarrow> (call \<times> settled) list" where
  "upto_main ss svc c old vcls m =
     upto_delete ss svc c old @ uploaded (number c) vcls @
     [(SetVclAsMain (number c) m, Fulfilled Done)]"

definition upto_validate ::
  "service list \<Rightarrow> service \<Rightarrow> clone_response \<Rightarrow> vcl list \<Rightarrow> vcl list \<Rightarrow> string
     \<Rightarrow> validation_response \<Rightarrow> (call \<times> settled) list" where
  "upto_validate ss svc c old vcls m vr =
     upto_main ss svc c old vcls m @ [(ValidateVersion (number c), Fulfilled (Validation vr))]"

text \<open>
  The calls a deployment can have made when it ends, with what it ends in: one rule
  for each place where the generator can stop, and one for the run that gets through.
  In a fan-out every call is made, and the reason thrown is that of one of the calls
  that were rejected.
\<close>

inductive deploy_path ::
  "string \<Rightarrow> string \<Rightarrow> vcl list \<Rightarrow> thrown + unit \<Rightarrow> (call \<times> settled) list \<Rightarrow> bool"
  for sid :: string and m :: string and vcls :: "vcl list" where
  p_services:
    "deploy_path sid m vcls (Inl (Foreign e)) [(GetServices, Rejected e)]"
| p_missing:
    "find (\<lambda>s. service_id s = sid) ss = None \<Longrightarrow>
     deploy_path sid m vcls (Inl (TypeError ''version'' Undefined))
       [(GetServices, Fulfilled (Services ss))]"
| p_clone:
    "find (\<lambda>s. service_id s = sid) ss = Some svc \<Longrightarrow>
     deploy_path sid m vcls (Inl (Foreign e))
       [(GetServices, Fulfilled (Services ss)), (CloneVersion (service_version svc), Rejected e)]"
| p_list:
    "find (\<lambda>s. service_id s = sid) ss = Some svc \<Longrightarrow>
     deploy_path sid m vcls (Inl (Foreign e))
       (upto_clone ss svc c @ [(GetVcl (number c), Rejected e)])"
| p_delete:
    "find (\<lambda>s. service_id s = sid) ss = Some svc \<Longrightarrow>
     length as = length old \<Longrightarrow> Rejected e \<in> set as \<Longrightarrow>
     deploy_path sid m vcls (Inl (Foreign e))
       (upto_clone ss svc c @ (GetVcl (number c), Fulfilled (Vcls old)) #
        zip (map (\<lambda>v. DeleteVcl (number c) (vcl_name v)) old) as)"
| p_upload:
    "find (\<lambda>s. service_id s = sid) ss = Some svc \<Longrightarrow>
     length as = length vcls \<Longrightarrow> Rejected e \<in> set as \<Longrightarrow>
     deploy_path sid m vcls (Inl (Foreign e))
       (upto_delete ss svc c old @ zip (map (UpdateVcl (number c)) vcls) as)"
| p_main:
    "find (\<lambda>s. service_id s = sid) ss = Some svc \<Longrightarrow>
     deploy_path sid m vcls (Inl (Foreign e))
       (upto_delete ss svc c old @ uploaded (number c) vcls @
        [(SetVclAsMain (number c) m, Rejected e)])"
| p_validate:
    "find (\<lambda>s. service_id s = sid) ss = Some svc \<Longrightarrow>
     deploy_path sid m vcls (Inl (Foreign e))
       (upto_main ss svc c old vcls m @ [(ValidateVersion (number c), Rejected e)])"
| p_invalid:
    "find (\<lambda>s. service_id s = sid) ss = Some svc \<Longrightarrow> status vr \<noteq> ''ok'' \<Longrightarrow>
     deploy_path sid m vcls (Inl (Error ''VCL failed validation for some unknown reason''))
       (upto_validate ss svc c old vcls m vr)"
| p_activate:
    "find (\<lambda>s. service_id s = sid) ss = Some svc \<Longrightarrow> status vr = ''ok'' \<Longrightarrow>
     deploy_path sid m vcls (Inl (Foreign e))
       (upto_validate ss svc c old vcls m vr @ [(ActivateVersion (number c), Rejected e)])"
| p_done:
    "find (\<lambda>s. service_id s = sid) ss = Some svc \<Longrightarrow> status vr = ''ok'' \<Longrightarrow>
     deploy_path sid m vcls (Inr ())
       (upto_validate ss svc c old vcls m vr @ [(ActivateVersion (number c), Fulfilled Done)])"

subsection \<open>What a theorem may assume of the remote system\<close>

text \<open>
  An observation of the remote state that every method of the client leaves as it is,
  the activation apart. The active version of the service is meant to be one.
\<close>

definition keeps_active :: "('s \<Rightarrow> int) \<Rightarrow> 's fastly \<Rightarrow> bool" where
  "keeps_active act f \<longleftrightarrow>
     (\<forall>c s. (\<forall>n. c \<noteq> ActivateVersion n) \<longrightarrow> act (snd (perform f c s)) = act s)"

text \<open>
  A client in front of a store of files: \<open>fl s v\<close> are the files of version \<open>v\<close> in the
  state \<open>s\<close>, by name. Listing gives the names of all of them, a deletion that is
  fulfilled removes the file named, an upload that is fulfilled puts the file under its
  name, and the entry point, the validation and the activation leave the files alone.
\<close>

definition file_store :: "('s \<Rightarrow> int \<Rightarrow> string \<Rightarrow> string option) \<Rightarrow> 's fastly \<Rightarrow> bool" where
  "file_store fl f \<longleftrightarrow>
     (\<forall>v s old s'. getVcl f v s = (Inr old, s') \<longrightarrow>
        fl s' v = fl s v \<and> vcl_name ` set old = dom (fl s v)) \<and>
     (\<forall>v n s u s'. deleteVcl f v n s = (Inr u, s') \<longrightarrow> fl s' v = (fl s v)(n := None)) \<and>
     (\<forall>v x s u s'. updateVcl f v x s = (Inr u, s') \<longrightarrow>
        fl s' v = (fl s v)(vcl_name x \<mapsto> vcl_content x)) \<and>
     (\<forall>v n s u s'. setVclAsMain f v n s = (Inr u, s') \<longrightarrow> fl s' v = fl s v) \<and>
     (\<forall>v s x s'. validateVersion f v s = (Inr x, s') \<longrightarrow> fl s' v = fl s v) \<and>
     (\<forall>v s u s'. activateVersion f v s = (Inr u, s') \<longrightarrow> fl s' v = fl s v)"

subsection \<open>A remote system to run the task against\<close>

text \<open>
  The remote side is not part of the repository. For concrete runs the theory uses the
  store that section 3 of the specification describes: a service has one active
  version, a version has a set of named files, cloning copies the files of a version
  into a fresh one, and activation moves the active-version pointer. A table of faults
  says which calls are rejected, and with what reason; a rejected call changes nothing.
\<close>

record store =
  active :: int
  latest :: int
  files :: "int \<Rightarrow> vcl list"

record plan =
  this_id :: string
  this_name :: string
  other_services :: "service list"
  faults :: "call \<Rightarrow> reason option"
  verdict :: validation_response

definition attempt ::
  "plan \<Rightarrow> call \<Rightarrow> (store \<Rightarrow> 'a \<times> store) \<Rightarrow> store \<Rightarrow> (reason + 'a) \<times> store" where
  "attempt u c ok s =
     (case faults u c of
        Some e \<Rightarrow> (Inl e, s)
      | None \<Rightarrow> (case ok s of (x, s') \<Rightarrow> (Inr x, s')))"

definition store_client :: "plan \<Rightarrow> store fastly" where
  "store_client u =
     \<lparr> getServices = attempt u GetServices (\<lambda>s.
         (other_services u @
            [\<lparr>service_id = this_id u, service_name = this_name u, service_version = active s\<rparr>], s)),
       cloneVersion = (\<lambda>v. attempt u (CloneVersion v) (\<lambda>s.
         (\<lparr>number = latest s + 1\<rparr>,
          s\<lparr>latest := latest s + 1, files := (files s)(latest s + 1 := files s v)\<rparr>))),
       getVcl = (\<lambda>v. attempt u (GetVcl v) (\<lambda>s. (files s v, s))),
       deleteVcl = (\<lambda>v n. attempt u (DeleteVcl v n) (\<lambda>s.
         ((), s\<lparr>files := (files s)(v := filter (\<lambda>f. vcl_name f \<noteq> n) (files s v))\<rparr>))),
       updateVcl = (\<lambda>v x. attempt u (UpdateVcl v x) (\<lambda>s.
         ((), s\<lparr>files := (files s)(v := filter (\<lambda>f. vcl_name f \<noteq> vcl_name x) (files s v) @ [x])\<rparr>))),
       setVclAsMain = (\<lambda>v n. attempt u (SetVclAsMain v n) (\<lambda>s. ((), s))),
       validateVersion = (\<lambda>v. attempt u (ValidateVersion v) (\<lambda>s. (verdict u, s))),
       activateVersion = (\<lambda>v. attempt u (ActivateVersion v) (\<lambda>s. ((), s\<lparr>active := v\<rparr>))) \<rparr>"

text \<open>
  The files of a version as a map from names to contents.
\<close>

definition files_of :: "store \<Rightarrow> int \<Rightarrow> string \<Rightarrow> string option" where
  "files_of s v = map_of (map (\<lambda>f. (vcl_name f, vcl_content f)) (files s v))"

text \<open>
  The setting of the scenarios of section 8: service \<^verbatim>\<open>svc1\<close> with active version 5,
  which has two files; three files to deploy; the credential in the environment.
\<close>

definition vcl_file :: "string \<Rightarrow> string \<Rightarrow> vcl" where
  "vcl_file n c = \<lparr>vcl_name = n, vcl_content = c\<rparr>"

definition new_files :: "vcl list" where
  "new_files = [vcl_file ''main.vcl'' ''sub vcl_recv {}'',
                vcl_file ''edge.vcl'' ''sub vcl_hit {}'',
                vcl_file ''util.vcl'' ''sub vcl_miss {}'']"

definition store5 :: store where
  "store5 = \<lparr> active = 5, latest = 5,
              files = (\<lambda>v. if v = 5 then [vcl_file ''main.vcl'' ''old main'',
                                             vcl_file ''legacy.vcl'' ''old legacy'']
                             else []) \<rparr>"

definition scenario_deps :: "plan \<Rightarrow> store deps" where
  "scenario_deps u =
     \<lparr> dotenv_load = (\<lambda>e. e),
       encodeURIComponent = (\<lambda>x. x),
       require_fastly = (\<lambda>key i. store_client u),
       loadVcl = (\<lambda>folder vs e. Inr new_files) \<rparr>"

definition scenario_env :: environ where
  "scenario_env = [''FASTLY_APIKEY'' \<mapsto> ''key'']"

definition opts_for :: "string option \<Rightarrow> opts" where
  "opts_for p = \<lparr> opts_main = None, opts_env = None, opts_service = p,
                  opts_vars = None, opts_verbose = None \<rparr>"

definition scenario_opts :: opts where
  "scenario_opts = \<lparr> opts_main = None, opts_env = None, opts_service = Some ''svc1'',
                     opts_vars = None, opts_verbose = None \<rparr>"

definition plan_ok :: plan where
  "plan_ok = \<lparr> this_id = ''svc1'', this_name = ''site'', other_services = [],
                faults = (\<lambda>c. None),
                verdict = \<lparr>status = ''ok'', diagnostics = []\<rparr> \<rparr>"

text \<open>
  Scenario B: the validation answers with the status \<^verbatim>\<open>error\<close>; and the same with other
  diagnostics in the answer.
\<close>

definition plan_invalid :: plan where
  "plan_invalid = plan_ok\<lparr>verdict := \<lparr>status = ''error'', diagnostics = [''unknown variable X'']\<rparr>\<rparr>"

definition plan_invalid_other :: plan where
  "plan_invalid_other = plan_ok\<lparr>verdict := \<lparr>status = ''error'', diagnostics = [''syntax error'']\<rparr>\<rparr>"

text \<open>
  A plan with one fault: the call \<open>c\<close> is rejected with the reason \<open>e\<close>. In scenario C
  the call is the upload of a file.
\<close>

definition plan_fault :: "call \<Rightarrow> reason \<Rightarrow> plan" where
  "plan_fault c e = plan_ok\<lparr>faults := (\<lambda>x. if x = c then Some e else None)\<rparr>"

definition plan_upload_fails :: "string \<Rightarrow> string \<Rightarrow> plan" where
  "plan_upload_fails n c = plan_fault (UpdateVcl 6 (vcl_file n c)) (Other ''boom'')"

text \<open>
  The service list has no service \<^verbatim>\<open>svc1\<close>, only one whose identifier is \<^verbatim>\<open>other\<close>.
\<close>

definition plan_other :: plan where
  "plan_other = plan_ok\<lparr>this_id := ''other''\<rparr>"


section \<open>How a run proceeds\<close>

lemma recorded_append:
  "recorded f s (xs @ ys) s' \<longleftrightarrow> (\<exists>s1. recorded f s xs s1 \<and> recorded f s1 ys s')"
  by (induction xs arbitrary: s) auto

lemma step_refl: "step f r [] r"
  by (simp add: step_def)

lemma step_trans: "step f r xs r1 \<Longrightarrow> step f r1 ys r2 \<Longrightarrow> step f r (xs @ ys) r2"
  by (auto simp: step_def recorded_append)

lemma step_cons: "step f r [x] r1 \<Longrightarrow> step f r1 ys r2 \<Longrightarrow> step f r (x # ys) r2"
  using step_trans [of f r "[x]" r1 ys r2] by simp

lemma logger_step: "logger c r = (res, r') \<Longrightarrow> res = Inr () \<and> step f r [] r'"
  by (auto simp: logger_def step_def)

lemma request_step:
  assumes "request c m w r = (res, r')" and "\<And>s. perform f c s = settle w (m s)"
  shows "\<exists>a. step f r [(c, a)] r' \<and>
           ((\<exists>e. a = Rejected e \<and> res = Inl (Foreign e)) \<or> (\<exists>x. a = Fulfilled (w x) \<and> res = Inr x))"
  using assms
  by (auto simp: request_def step_def settle_def split: prod.splits sum.splits)

lemma vcl_rebuild [simp]: "\<lparr>vcl_name = vcl_name v, vcl_content = vcl_content v\<rparr> = (v::vcl)"
  by simp

lemma Promise_all_Inl: "Promise_all ps = Inl t \<Longrightarrow> Inl t \<in> set ps"
  by (induction ps rule: Promise_all.induct) (auto split: sum.splits)

lemma Promise_all_Inr: "Promise_all ps = Inr ys \<Longrightarrow> ps = map Inr ys"
  by (induction ps arbitrary: ys rule: Promise_all.induct) (auto split: sum.splits)

text \<open>Every callback of a fan-out runs; each adds one recorded call.\<close>

lemma map_calls_step:
  assumes perf: "\<And>x s. perform f (c x) s = settle (\<lambda>_. Done) (m x s)"
  shows "map_calls (\<lambda>x. and_then (logger (l x)) (\<lambda>_. request (c x) (m x) (\<lambda>_. Done))) xs r = (ress, r') \<Longrightarrow>
         \<exists>as. length as = length xs \<and> step f r (zip (map c xs) as) r' \<and>
              list_all2 (\<lambda>res a. (\<exists>e. a = Rejected e \<and> res = Inl (Foreign e)) \<or>
                                  (a = Fulfilled Done \<and> res = Inr ())) ress as"
proof (induction xs arbitrary: r ress r')
  case Nil
  then show ?case by (simp add: step_refl)
next
  case (Cons x xs)
  let ?g = "\<lambda>x. and_then (logger (l x)) (\<lambda>_. request (c x) (m x) (\<lambda>_. Done))"
  obtain res1 r1 where one: "?g x r = (res1, r1)" by (cases "?g x r")
  obtain rest r2 where more: "map_calls ?g xs r1 = (rest, r2)" by (cases "map_calls ?g xs r1")
  from Cons.prems one more have ress: "ress = res1 # rest" and r': "r' = r2" by auto
  obtain r0 where lg: "logger (l x) r = (Inr (), r0)" and rq: "request (c x) (m x) (\<lambda>_. Done) r0 = (res1, r1)"
    using one by (auto simp: and_then_def logger_def)
  from logger_step [OF lg, of f] have s0: "step f r [] r0" by simp
  from request_step [OF rq perf] obtain a where
    s1: "step f r0 [(c x, a)] r1" and
    a: "(\<exists>e. a = Rejected e \<and> res1 = Inl (Foreign e)) \<or> (a = Fulfilled Done \<and> res1 = Inr ())"
    by auto
  from Cons.IH [OF more] obtain as where
    len: "length as = length xs" and s2: "step f r1 (zip (map c xs) as) r2" and
    rel: "list_all2 (\<lambda>res a. (\<exists>e. a = Rejected e \<and> res = Inl (Foreign e)) \<or>
                              (a = Fulfilled Done \<and> res = Inr ())) rest as"
    by blast
  have "step f r (zip (map c (x # xs)) (a # as)) r2"
    using step_trans [OF s0 step_cons [OF s1 s2]] by simp
  with len rel a ress r' show ?case
    by (intro exI [of _ "a # as"]) auto
qed

lemma fan_out_step:
  fixes m :: "'x \<Rightarrow> 's \<Rightarrow> (reason + unit) \<times> 's"
  assumes perf: "\<And>x s. perform f (c x) s = settle (\<lambda>_. Done) (m x s)"
    and run: "yield_all (\<lambda>x. and_then (logger (l x)) (\<lambda>_. request (c x) (m x) (\<lambda>_. Done))) xs r = (res, r')"
  shows "(\<exists>ys. res = Inr ys \<and> step f r (map (\<lambda>x. (c x, Fulfilled Done)) xs) r') \<or>
         (\<exists>as e. res = Inl (Foreign e) \<and> length as = length xs \<and> Rejected e \<in> set as \<and>
                 step f r (zip (map c xs) as) r')"
proof -
  let ?g = "\<lambda>x. and_then (logger (l x)) (\<lambda>_. request (c x) (m x) (\<lambda>_. Done))"
  obtain ress where mc: "map_calls ?g xs r = (ress, r')" and res: "res = Promise_all ress"
    using run by (auto simp: yield_all_def split: prod.splits)
  from map_calls_step [OF perf mc] obtain as where
    len: "length as = length xs" and st: "step f r (zip (map c xs) as) r'" and
    rel: "list_all2 (\<lambda>res a. (\<exists>e. a = Rejected e \<and> res = Inl (Foreign e)) \<or>
                              (a = Fulfilled Done \<and> res = Inr ())) ress as"
    by blast
  show ?thesis
  proof (cases res)
    case (Inl t)
    with res have "Inl t \<in> set ress" by (simp add: Promise_all_Inl)
    then obtain i where i: "i < length ress" "ress ! i = Inl t" by (auto simp: in_set_conv_nth)
    with rel have "\<exists>e. as ! i = Rejected e \<and> t = Foreign e"
      by (auto simp: list_all2_conv_all_nth)
    then obtain e where e: "as ! i = Rejected e" "t = Foreign e" by blast
    from i rel have "i < length as" by (simp add: list_all2_lengthD)
    with e have "Rejected e \<in> set as" by (metis nth_mem)
    with Inl e len st show ?thesis by blast
  next
    case (Inr ys)
    with res have ress: "ress = map Inr ys" by (simp add: Promise_all_Inr)
    have "\<forall>i < length as. as ! i = Fulfilled Done"
      using rel ress by (auto simp: list_all2_conv_all_nth)
    then have "as = replicate (length xs) (Fulfilled Done)"
      using len by (auto simp: list_eq_iff_nth_eq)
    then have "zip (map c xs) as = map (\<lambda>x. (c x, Fulfilled Done)) xs"
      by (simp add: list_eq_iff_nth_eq)
    with st Inr show ?thesis by simp
  qed
qed

lemma and_then_logger [simp]: "and_then (logger c) g r = g () (r\<lparr>log := log r @ [c]\<rparr>)"
  by (simp add: and_then_def logger_def)

lemma step_log_left [simp]: "step f (r\<lparr>log := l\<rparr>) new r' = step f r new r'"
  by (simp add: step_def)

lemma step_log_right [simp]: "step f r new (r'\<lparr>log := l\<rparr>) = step f r new r'"
  by (simp add: step_def)

lemma and_then_request:
  assumes "and_then (request c m w) g r = (res, r')" and "\<And>s. perform f c s = settle w (m s)"
  shows "(\<exists>e. res = Inl (Foreign e) \<and> step f r [(c, Rejected e)] r') \<or>
         (\<exists>x r1. step f r [(c, Fulfilled (w x))] r1 \<and> g x r1 = (res, r'))"
proof -
  obtain res1 r1 where rq: "request c m w r = (res1, r1)" by (cases "request c m w r")
  from request_step [OF rq assms(2)] obtain a where
    st: "step f r [(c, a)] r1" and
    a: "(\<exists>e. a = Rejected e \<and> res1 = Inl (Foreign e)) \<or> (\<exists>x. a = Fulfilled (w x) \<and> res1 = Inr x)"
    by blast
  from a show ?thesis
  proof
    assume "\<exists>e. a = Rejected e \<and> res1 = Inl (Foreign e)"
    with assms(1) rq st show ?thesis by (auto simp: and_then_def)
  next
    assume "\<exists>x. a = Fulfilled (w x) \<and> res1 = Inr x"
    with assms(1) rq st show ?thesis by (auto simp: and_then_def)
  qed
qed

lemma get_service_step:
  assumes "get_service f sid r = (res, r')"
  shows "(\<exists>e. res = Inl (Foreign e) \<and> step f r [(GetServices, Rejected e)] r') \<or>
         (\<exists>ss. find (\<lambda>s. service_id s = sid) ss = None \<and> res = Inl (TypeError ''version'' Undefined) \<and>
               step f r [(GetServices, Fulfilled (Services ss))] r') \<or>
         (\<exists>ss svc. find (\<lambda>s. service_id s = sid) ss = Some svc \<and> res = Inr svc \<and>
               step f r [(GetServices, Fulfilled (Services ss))] r')"
  using and_then_request [OF assms [unfolded get_service_def], of f]
  by (auto simp: throw_def ret_def split: option.splits)

lemma clone_version_step:
  assumes "clone_version f svc r = (res, r')"
  shows "(\<exists>e. res = Inl (Foreign e) \<and> step f r [(CloneVersion (service_version svc), Rejected e)] r') \<or>
         (\<exists>c. res = Inr (number c) \<and>
              step f r [(CloneVersion (service_version svc), Fulfilled (Cloned c))] r')"
  using and_then_request [OF assms [unfolded clone_version_def Let_def and_then_logger], of f]
  by (auto simp: ret_def)

lemma and_then_fan_out:
  fixes m :: "'x \<Rightarrow> 's \<Rightarrow> (reason + unit) \<times> 's"
  assumes run: "and_then (yield_all (\<lambda>x. and_then (logger (l x)) (\<lambda>_. request (c x) (m x) (\<lambda>_. Done))) xs) g r = (res, r')"
    and perf: "\<And>x s. perform f (c x) s = settle (\<lambda>_. Done) (m x s)"
  shows "(\<exists>as e. res = Inl (Foreign e) \<and> length as = length xs \<and> Rejected e \<in> set as \<and>
                 step f r (zip (map c xs) as) r') \<or>
         (\<exists>ys r1. step f r (map (\<lambda>x. (c x, Fulfilled Done)) xs) r1 \<and> g ys r1 = (res, r'))"
proof -
  let ?fo = "yield_all (\<lambda>x. and_then (logger (l x)) (\<lambda>_. request (c x) (m x) (\<lambda>_. Done))) xs"
  obtain res1 r1 where fo: "?fo r = (res1, r1)" by (cases "?fo r")
  from fan_out_step [OF perf fo]
  show ?thesis
  proof (elim disjE exE conjE)
    fix ys assume "res1 = Inr ys" and "step f r (map (\<lambda>x. (c x, Fulfilled Done)) xs) r1"
    moreover from this fo run have "g ys r1 = (res, r')" by (simp add: and_then_def)
    ultimately show ?thesis by blast
  next
    fix as e assume "res1 = Inl (Foreign e)" and rest: "length as = length xs" "Rejected e \<in> set as"
      "step f r (zip (map c xs) as) r1"
    with fo run have "res = Inl (Foreign e)" "r' = r1" by (simp_all add: and_then_def)
    with rest show ?thesis by blast
  qed
qed

lemma delete_old_vcl_step:
  assumes "delete_old_vcl f n r = (res, r')"
  shows "(\<exists>e. res = Inl (Foreign e) \<and> step f r [(GetVcl n, Rejected e)] r') \<or>
         (\<exists>old as e. res = Inl (Foreign e) \<and> length as = length old \<and> Rejected e \<in> set as \<and>
              step f r ((GetVcl n, Fulfilled (Vcls old)) #
                        zip (map (\<lambda>v. DeleteVcl n (vcl_name v)) old) as) r') \<or>
         (\<exists>old. res = Inr () \<and> step f r ((GetVcl n, Fulfilled (Vcls old)) # deleted n old) r')"
proof -
  have p0: "\<And>s. perform f (GetVcl n) s = settle Vcls (getVcl f n s)" by simp
  from and_then_request [OF assms [unfolded delete_old_vcl_def] p0] show ?thesis
proof (elim disjE exE conjE)
  fix e assume "res = Inl (Foreign e)" "step f r [(GetVcl n, Rejected e)] r'"
  then show ?thesis by blast
next
  fix old r1
  assume st: "step f r [(GetVcl n, Fulfilled (Vcls old))] r1"
    and rest: "and_then (yield_all (\<lambda>v.
            and_then (logger (LogVerbose (Msg [S ''Deleting '', S [CHR 0x22], S (vcl_name v),
                                               S [CHR 0x22], S '' for version '', N n]))) (\<lambda>_.
            request (DeleteVcl n (vcl_name v)) (deleteVcl f n (vcl_name v)) (\<lambda>_. Done))) old) (\<lambda>_.
          logger (LogInfo (Msg [S ''Deleted old vcl'']))) r1 = (res, r')"
  have perf: "\<And>v s. perform f (DeleteVcl n (vcl_name v)) s = settle (\<lambda>_. Done) (deleteVcl f n (vcl_name v) s)"
    by simp
  from and_then_fan_out [where c = "\<lambda>v. DeleteVcl n (vcl_name v)" and m = "\<lambda>v. deleteVcl f n (vcl_name v)"
      and f = f, OF rest perf]
  show ?thesis
  proof (elim disjE exE conjE)
    fix as e assume "res = Inl (Foreign e)" "length as = length old" "Rejected e \<in> set as"
      and "step f r1 (zip (map (\<lambda>v. DeleteVcl n (vcl_name v)) old) as) r'"
    with step_cons [OF st] show ?thesis by blast
  next
    fix ys r2 assume s2: "step f r1 (map (\<lambda>x. (DeleteVcl n (vcl_name x), Fulfilled Done)) old) r2"
      and lg: "logger (LogInfo (Msg [S ''Deleted old vcl''])) r2 = (res, r')"
    from logger_step [OF lg, of f] have "res = Inr ()" "step f r2 [] r'" by simp_all
    with step_trans [OF step_cons [OF st s2], of "[]" r'] show ?thesis
      by (auto simp: deleted_def)
  qed
qed
qed

lemma upload_new_vcl_step:
  assumes "upload_new_vcl f n vcls r = (res, r')"
  shows "(\<exists>as e. res = Inl (Foreign e) \<and> length as = length vcls \<and> Rejected e \<in> set as \<and>
              step f r (zip (map (UpdateVcl n) vcls) as) r') \<or>
         (res = Inr () \<and> step f r (uploaded n vcls) r')"
proof -
  have perf: "\<And>v s. perform f (UpdateVcl n v) s = settle (\<lambda>_. Done) (updateVcl f n v s)"
    by simp
  from assms have run: "and_then (yield_all (\<lambda>v.
         and_then (logger (LogVerbose (Msg [S ''Uploading new VCL '', S (vcl_name v),
                                            S '' with version '', N n]))) (\<lambda>_.
         request (UpdateVcl n v) (updateVcl f n v) (\<lambda>_. Done))) vcls) (\<lambda>_. ret ())
       (r\<lparr>log := log r @ [LogInfo (Msg [S ''Uploading new VCL''])]\<rparr>) = (res, r')"
    by (simp add: upload_new_vcl_def)
  from and_then_fan_out [where c = "UpdateVcl n" and m = "updateVcl f n" and f = f, OF run perf]
  show ?thesis by (auto simp: ret_def uploaded_def)
qed

lemma set_main_step:
  assumes "set_main f options n r = (res, r')"
  shows "(\<exists>e. res = Inl (Foreign e) \<and> step f r [(SetVclAsMain n (options_main options), Rejected e)] r') \<or>
         (res = Inr () \<and> step f r [(SetVclAsMain n (options_main options), Fulfilled Done)] r')"
proof -
  have perf: "\<And>s. perform f (SetVclAsMain n (options_main options)) s =
                settle (\<lambda>_. Done) (setVclAsMain f n (options_main options) s)"
    by simp
  from assms obtain r0 where
    "request (SetVclAsMain n (options_main options)) (setVclAsMain f n (options_main options))
       (\<lambda>_. Done) r0 = (res, r')" and "\<And>new. step f r0 new r' = step f r new r'"
    by (simp add: set_main_def)
  with request_step [OF this(1) perf] show ?thesis by auto
qed

lemma validate_step:
  assumes "validate f n r = (res, r')"
  shows "(\<exists>e. res = Inl (Foreign e) \<and> step f r [(ValidateVersion n, Rejected e)] r') \<or>
         (\<exists>vr. res = Inr vr \<and> step f r [(ValidateVersion n, Fulfilled (Validation vr))] r')"
proof -
  have perf: "\<And>s. perform f (ValidateVersion n) s = settle Validation (validateVersion f n s)"
    by simp
  let ?r0 = "r\<lparr>log := log r @ [LogVerbose (Msg [S ''Validate version '', N n])]\<rparr>"
  obtain res1 r1 where
    rq: "request (ValidateVersion n) (validateVersion f n) Validation ?r0 = (res1, r1)"
    by (metis surj_pair)
  from assms rq have fin: "(res, r') = (case res1 of Inl e \<Rightarrow> (Inl e, r1) | Inr x \<Rightarrow> (Inr x, r1))"
    by (simp add: validate_def catch_with_def throw_def split: sum.splits)
  from request_step [OF rq perf] fin show ?thesis by auto
qed

lemma activate_step:
  assumes "activate f n vr r = (res, r')"
  shows "(status vr \<noteq> ''ok'' \<and> res = Inl (Error ''VCL failed validation for some unknown reason'') \<and>
            step f r [] r') \<or>
         (status vr = ''ok'' \<and> (\<exists>e. res = Inl (Foreign e) \<and> step f r [(ActivateVersion n, Rejected e)] r')) \<or>
         (status vr = ''ok'' \<and> res = Inr () \<and> step f r [(ActivateVersion n, Fulfilled Done)] r')"
proof (cases "status vr = ''ok''")
  case False
  with assms show ?thesis
    by (auto simp: activate_def and_then_def throw_def step_def)
next
  case True
  have perf: "\<And>s. perform f (ActivateVersion n) s = settle (\<lambda>_. Done) (activateVersion f n s)"
    by simp
  let ?r0 = "r\<lparr>log := log r @ [LogInfo (Msg [S ''Version  '', N n, S '' looks ok''])]\<rparr>"
  obtain res1 r1 where
    rq: "request (ActivateVersion n) (activateVersion f n) (\<lambda>_. Done) ?r0 = (res1, r1)"
    by (metis surj_pair)
  from assms rq True have fin:
    "(case res1 of Inl e \<Rightarrow> res = Inl e \<and> r' = r1 | Inr x \<Rightarrow> res = Inr () \<and> step f r1 [] r')"
    by (auto simp: activate_def and_then_def logger_def step_def split: sum.splits)
  from request_step [OF rq perf] obtain a where
    st: "step f r [(ActivateVersion n, a)] r1" and
    a: "(\<exists>e. a = Rejected e \<and> res1 = Inl (Foreign e)) \<or> (a = Fulfilled Done \<and> (\<exists>x. res1 = Inr x))"
    by auto
  from a show ?thesis
  proof
    assume "\<exists>e. a = Rejected e \<and> res1 = Inl (Foreign e)"
    with fin st True show ?thesis by auto
  next
    assume "a = Fulfilled Done \<and> (\<exists>x. res1 = Inr x)"
    with fin st True step_trans [of f r "[(ActivateVersion n, a)]" r1 "[]" r'] show ?thesis by auto
  qed
qed

lemma and_then_cases:
  assumes "and_then m g r = (res, r')"
  shows "(\<exists>t. m r = (Inl t, r') \<and> res = Inl t) \<or> (\<exists>x r1. m r = (Inr x, r1) \<and> g x r1 = (res, r'))"
  using assms by (auto simp: and_then_def split: prod.splits sum.splits)

lemma and_then_elim:
  assumes "and_then m g r = (res, r')"
  obtains (stop) t where "m r = (Inl t, r')" and "res = Inl t"
        | (go) x r1 where "m r = (Inr x, r1)" and "g x r1 = (res, r')"
  using and_then_cases [OF assms] by blast

lemma after_validate:
  assumes found: "find (\<lambda>s. service_id s = sid) ss = Some svc"
    and pre: "step f r (upto_validate ss svc c old vcls m vr) r1"
    and run: "activate f (number c) vr r1 = (res, r')"
  shows "\<exists>new. step f r new r' \<and> deploy_path sid m vcls res new"
  using activate_step [OF run]
proof (elim disjE exE conjE)
  assume "status vr \<noteq> ''ok''" "res = Inl (Error ''VCL failed validation for some unknown reason'')"
    "step f r1 [] r'"
  with step_trans [OF pre, of "[]" r'] deploy_path.p_invalid [OF found, of vr m vcls c old]
  show ?thesis by auto
next
  fix e assume "status vr = ''ok''" "res = Inl (Foreign e)" "step f r1 [(ActivateVersion (number c), Rejected e)] r'"
  with step_trans [OF pre] deploy_path.p_activate [OF found, of vr m vcls e c old]
  show ?thesis by blast
next
  assume "status vr = ''ok''" "res = Inr ()" "step f r1 [(ActivateVersion (number c), Fulfilled Done)] r'"
  with step_trans [OF pre] deploy_path.p_done [OF found, of vr m vcls c old]
  show ?thesis by blast
qed

lemma after_main:
  assumes found: "find (\<lambda>s. service_id s = sid) ss = Some svc"
    and pre: "step f r (upto_main ss svc c old vcls m) r1"
    and run: "and_then (validate f (number c)) (activate f (number c)) r1 = (res, r')"
  shows "\<exists>new. step f r new r' \<and> deploy_path sid m vcls res new"
  using run
proof (cases rule: and_then_elim)
  case (stop t)
  from validate_step [OF stop(1)] obtain e where
    "t = Foreign e" "step f r1 [(ValidateVersion (number c), Rejected e)] r'" by auto
  with step_trans [OF pre] stop(2) deploy_path.p_validate [OF found, of m vcls e c old]
  show ?thesis by blast
next
  case (go vr r2)
  from validate_step [OF go(1)] have
    "step f r1 [(ValidateVersion (number c), Fulfilled (Validation vr))] r2" by auto
  with step_trans [OF pre] have "step f r (upto_validate ss svc c old vcls m vr) r2"
    by (simp add: upto_validate_def)
  from after_validate [OF found this go(2)] show ?thesis .
qed

lemma after_upload:
  assumes found: "find (\<lambda>s. service_id s = sid) ss = Some svc"
    and pre: "step f r (upto_delete ss svc c old @ uploaded (number c) vcls) r1"
    and run: "and_then (set_main f options (number c)) (\<lambda>_.
              and_then (validate f (number c)) (activate f (number c))) r1 = (res, r')"
  shows "\<exists>new. step f r new r' \<and> deploy_path sid (options_main options) vcls res new"
  using run
proof (cases rule: and_then_elim)
  case (stop t)
  from set_main_step [OF stop(1)] obtain e where
    "t = Foreign e" "step f r1 [(SetVclAsMain (number c) (options_main options), Rejected e)] r'"
    by auto
  with step_trans [OF pre] stop(2)
    deploy_path.p_main [OF found, of "options_main options" vcls e c old]
  show ?thesis by auto
next
  case (go u r2)
  from set_main_step [OF go(1)] have
    "step f r1 [(SetVclAsMain (number c) (options_main options), Fulfilled Done)] r2" by auto
  with step_trans [OF pre] have "step f r (upto_main ss svc c old vcls (options_main options)) r2"
    by (simp add: upto_main_def)
  from after_main [OF found this go(2)] show ?thesis .
qed

lemma after_delete:
  assumes found: "find (\<lambda>s. service_id s = sid) ss = Some svc"
    and pre: "step f r (upto_delete ss svc c old) r1"
    and run: "and_then (upload_new_vcl f (number c) vcls) (\<lambda>_.
              and_then (set_main f options (number c)) (\<lambda>_.
              and_then (validate f (number c)) (activate f (number c)))) r1 = (res, r')"
  shows "\<exists>new. step f r new r' \<and> deploy_path sid (options_main options) vcls res new"
  using run
proof (cases rule: and_then_elim)
  case (stop t)
  from upload_new_vcl_step [OF stop(1)] obtain as e where
    "t = Foreign e" "length as = length vcls" "Rejected e \<in> set as"
    "step f r1 (zip (map (UpdateVcl (number c)) vcls) as) r'"
    by auto
  with step_trans [OF pre] stop(2)
    deploy_path.p_upload [OF found, of as vcls e "options_main options" c old]
  show ?thesis by blast
next
  case (go u r2)
  from upload_new_vcl_step [OF go(1)] have "step f r1 (uploaded (number c) vcls) r2" by auto
  from after_upload [OF found step_trans [OF pre this] go(2)] show ?thesis .
qed

lemma after_clone:
  assumes found: "find (\<lambda>s. service_id s = sid) ss = Some svc"
    and pre: "step f r (upto_clone ss svc c) r1"
    and run: "and_then (delete_old_vcl f (number c)) (\<lambda>_.
              and_then (upload_new_vcl f (number c) vcls) (\<lambda>_.
              and_then (set_main f options (number c)) (\<lambda>_.
              and_then (validate f (number c)) (activate f (number c))))) r1 = (res, r')"
  shows "\<exists>new. step f r new r' \<and> deploy_path sid (options_main options) vcls res new"
  using run
proof (cases rule: and_then_elim)
  case (stop t)
  from delete_old_vcl_step [OF stop(1)]
  consider e where "t = Foreign e" "step f r1 [(GetVcl (number c), Rejected e)] r'"
    | old as e where "t = Foreign e" "length as = length old" "Rejected e \<in> set as"
        "step f r1 ((GetVcl (number c), Fulfilled (Vcls old)) #
                    zip (map (\<lambda>v. DeleteVcl (number c) (vcl_name v)) old) as) r'"
    by auto
  then show ?thesis
  proof cases
    case 1
    with step_trans [OF pre] stop(2)
      deploy_path.p_list [OF found, of "options_main options" vcls e c]
    show ?thesis by blast
  next
    case 2
    with step_trans [OF pre] stop(2)
      deploy_path.p_delete [OF found, of as old e "options_main options" vcls c]
    show ?thesis by blast
  qed
next
  case (go u r2)
  from delete_old_vcl_step [OF go(1)] obtain old where
    "step f r1 ((GetVcl (number c), Fulfilled (Vcls old)) # deleted (number c) old) r2" by auto
  with step_trans [OF pre] have "step f r (upto_delete ss svc c old) r2"
    by (simp add: upto_delete_def)
  from after_delete [OF found this go(2)] show ?thesis .
qed

lemma after_service:
  assumes found: "find (\<lambda>s. service_id s = sid) ss = Some svc"
    and pre: "step f r [(GetServices, Fulfilled (Services ss))] r1"
    and run: "and_then (clone_version f svc) (\<lambda>newVersion.
              and_then (delete_old_vcl f newVersion) (\<lambda>_.
              and_then (upload_new_vcl f newVersion vcls) (\<lambda>_.
              and_then (set_main f options newVersion) (\<lambda>_.
              and_then (validate f newVersion) (activate f newVersion))))) r1 = (res, r')"
  shows "\<exists>new. step f r new r' \<and> deploy_path sid (options_main options) vcls res new"
  using run
proof (cases rule: and_then_elim)
  case (stop t)
  from clone_version_step [OF stop(1)] obtain e where
    "t = Foreign e" "step f r1 [(CloneVersion (service_version svc), Rejected e)] r'" by auto
  with step_trans [OF pre] stop(2)
    deploy_path.p_clone [OF found, of "options_main options" vcls e]
  show ?thesis by auto
next
  case (go n r2)
  from clone_version_step [OF go(1)] obtain c where n: "n = number c" and
    "step f r1 [(CloneVersion (service_version svc), Fulfilled (Cloned c))] r2" by auto
  with step_trans [OF pre] have "step f r (upto_clone ss svc c) r2"
    by (simp add: upto_clone_def)
  from after_clone [OF found this go(2) [unfolded n]] show ?thesis .
qed

lemma deploy_sound:
  assumes "deploy f options sid vcls r = (res, r')"
  shows "\<exists>new. step f r new r' \<and> deploy_path sid (options_main options) vcls res new"
  using assms [unfolded deploy_def]
proof (cases rule: and_then_elim)
  case (stop t)
  from get_service_step [OF stop(1)] stop(2) show ?thesis
    by (auto intro: deploy_path.p_services deploy_path.p_missing)
next
  case (go svc r1)
  from get_service_step [OF go(1)] obtain ss where
    "find (\<lambda>s. service_id s = sid) ss = Some svc"
    "step f r [(GetServices, Fulfilled (Services ss))] r1" by auto
  from after_service [OF this go(2)] show ?thesis .
qed

section \<open>The task as a whole\<close>

lemma task_catch_Error [simp]:
  "task_catch (Error m) r = (Exited ''Bailing...'', r\<lparr>log := log r @ [LogError (Stack (Error m))]\<rparr>)"
  by (simp add: task_catch_def exit_def)

lemma task_catch_TypeError [simp]:
  "task_catch (TypeError p x) r =
     (Exited ''Bailing...'', r\<lparr>log := log r @ [LogError (Stack (TypeError p x))]\<rparr>)"
  by (simp add: task_catch_def exit_def)

lemma task_catch_Foreign:
  "task_catch (Foreign x) r =
     (if x = Undefined \<or> x = Null then (RejectedWith (TypeError ''type'' x), r)
      else (Exited ''Bailing...'', r\<lparr>log := log r @ [LogError (Stack (Foreign x))]\<rparr>))"
  by (cases x) (simp_all add: task_catch_def exit_def)

lemma task_catch_frame:
  "task_catch t r0 = (out, r) \<Longrightarrow> calls r = calls r0 \<and> remote r = remote r0 \<and> env r = env r0"
  by (auto simp: task_catch_def exit_def split: sum.splits if_splits)

lemma task_catch_not_Resolved: "task_catch t r0 = (out, r) \<Longrightarrow> out \<noteq> Resolved"
  by (auto simp: task_catch_def exit_def split: sum.splits if_splits)

lemma set_SERVICEID_frame:
  "\<exists>r1. set_SERVICEID options i r = (Inr (), r1) \<and> calls r1 = calls r \<and> remote r1 = remote r \<and>
        log r1 = log r"
  by (simp add: set_SERVICEID_def)

lemma task_elim:
  assumes "task d folder opts e s = (out, r)"
  obtains
    (config) t where
      "settings (assign_defaults opts) opts (start_env d opts e) = Inl t"
      "task_catch t \<lparr>env = start_env d opts e, remote = s, calls = [], log = []\<rparr> = (out, r)"
  | (load) k i x r0 where
      "settings (assign_defaults opts) opts (start_env d opts e) = Inr (k, i)"
      "loadVcl d folder (options_vars (assign_defaults opts)) (env r0) = Inl x"
      "calls r0 = []" "remote r0 = s" "log r0 = []"
      "task_catch (Foreign x) r0 = (out, r)"
  | (failed) k i vcls t r1 where
      "settings (assign_defaults opts) opts (start_env d opts e) = Inr (k, i)"
      "loadVcl d folder (options_vars (assign_defaults opts)) (env r1) = Inr vcls"
      "deploy_path i (options_main (assign_defaults opts)) vcls (Inl t) (calls r1)"
      "recorded (require_fastly d k (encodeURIComponent d i)) s (calls r1) (remote r1)"
      "task_catch t r1 = (out, r)"
  | (finished) k i vcls where
      "settings (assign_defaults opts) opts (start_env d opts e) = Inr (k, i)"
      "loadVcl d folder (options_vars (assign_defaults opts)) (env r) = Inr vcls"
      "deploy_path i (options_main (assign_defaults opts)) vcls (Inr ()) (calls r)"
      "recorded (require_fastly d k (encodeURIComponent d i)) s (calls r) (remote r)"
      "out = Resolved"
proof -
  let ?o = "assign_defaults opts"
  let ?r0 = "\<lparr>env = start_env d opts e, remote = s, calls = [], log = []\<rparr>"
  show ?thesis
  proof (cases "settings ?o opts (start_env d opts e)")
    case (Inl t)
    with assms have "task_catch t ?r0 = (out, r)"
      by (simp add: task_def task_co_def)
    with Inl show ?thesis by (rule config)
  next
    case (Inr ki)
    obtain k i where ki: "ki = (k, i)" by (cases ki)
    let ?f = "require_fastly d k (encodeURIComponent d i)"
    obtain r1 where r1: "set_SERVICEID ?o i ?r0 = (Inr (), r1)"
      and fr: "calls r1 = []" "remote r1 = s" "log r1 = []"
      using set_SERVICEID_frame [of ?o i ?r0] by auto
    show ?thesis
    proof (cases "loadVcl d folder (options_vars ?o) (env r1)")
      case (Inl x)
      with assms Inr ki r1 have "task_catch (Foreign x) r1 = (out, r)"
        by (simp add: task_def task_co_def and_then_def load_vcls_def)
      with Inr ki Inl fr show ?thesis by (auto intro: load)
    next
      case vcls: (Inr vcls)
      obtain res r2 where dp: "deploy ?f ?o i vcls r1 = (res, r2)" by (metis surj_pair)
      from deploy_sound [OF dp] obtain new where
        st: "step ?f r1 new r2" and path: "deploy_path i (options_main ?o) vcls res new" by blast
      from st fr have c2: "calls r2 = new" and rec: "recorded ?f s new (remote r2)" and env2: "env r2 = env r1"
        by (simp_all add: step_def)
      from assms Inr ki r1 vcls dp have fin:
        "(case res of Inr u \<Rightarrow> (Resolved, r2) | Inl t \<Rightarrow> task_catch t r2) = (out, r)"
        by (simp add: task_def task_co_def and_then_def load_vcls_def split: sum.splits)
      from vcls env2 have l2: "loadVcl d folder (options_vars ?o) (env r2) = Inr vcls" by simp
      from Inr ki have st2: "settings ?o opts (start_env d opts e) = Inr (k, i)" by simp
      from rec c2 have rec2: "recorded ?f s (calls r2) (remote r2)" by simp
      show ?thesis
      proof (cases res)
        case (Inl t)
        with fin have tc: "task_catch t r2 = (out, r)" by simp
        from path c2 Inl have "deploy_path i (options_main ?o) vcls (Inl t) (calls r2)" by simp
        from failed [OF st2 l2 this rec2 tc] show ?thesis .
      next
        case res: (Inr u)
        with fin have fin2: "out = Resolved" "r2 = r" by simp_all
        from path c2 res have "deploy_path i (options_main ?o) vcls (Inr ()) (calls r2)" by simp
        from finished [OF st2 l2 [unfolded fin2] this [unfolded fin2] rec2 [unfolded fin2] fin2(1)]
        show ?thesis .
      qed
    qed
  qed
qed

section \<open>The calls a run can have made\<close>

lemma zip_left: "(c, a) \<in> set (zip (map g xs) as) \<Longrightarrow> \<exists>x \<in> set xs. c = g x"
  by (auto dest!: set_zip_leftD)

lemma zip_rejected:
  assumes "length as = length xs" and "Rejected e \<in> set as"
  shows "\<exists>x \<in> set xs. (g x, Rejected e) \<in> set (zip (map g xs) as)"
proof -
  from assms(2) obtain k where k: "k < length as" "as ! k = Rejected e"
    by (auto simp: in_set_conv_nth)
  with assms(1) have "(g (xs ! k), Rejected e) \<in> set (zip (map g xs) as)"
    by (auto simp: set_zip intro!: exI [of _ k])
  with k assms(1) show ?thesis by (metis nth_mem)
qed

lemma in_upto_clone:
  "x \<in> set (upto_clone ss svc c) \<Longrightarrow>
     stage (fst x) \<le> 2 \<and> (\<exists>y. snd x = Fulfilled y \<and> (\<forall>vr. y \<noteq> Validation vr))"
  by (auto simp: upto_clone_def)

lemma in_upto_delete:
  "x \<in> set (upto_delete ss svc c old) \<Longrightarrow>
     stage (fst x) \<le> 3 \<and> (\<exists>y. snd x = Fulfilled y \<and> (\<forall>vr. y \<noteq> Validation vr))"
  by (auto simp: upto_delete_def deleted_def dest: in_upto_clone)

lemma in_upto_main:
  "x \<in> set (upto_main ss svc c old vcls m) \<Longrightarrow>
     stage (fst x) \<le> 5 \<and> (\<exists>y. snd x = Fulfilled y \<and> (\<forall>vr. y \<noteq> Validation vr))"
  by (auto simp: upto_main_def uploaded_def dest: in_upto_delete)

lemma in_zip_delete:
  "x \<in> set (zip (map (\<lambda>v. DeleteVcl n (vcl_name v)) old) as) \<Longrightarrow> stage (fst x) = 3 \<and> snd x \<in> set as"
  by (cases x) (auto dest: zip_left set_zip_rightD)

lemma in_zip_upload:
  "x \<in> set (zip (map (UpdateVcl n) vcls) as) \<Longrightarrow> stage (fst x) = 4 \<and> snd x \<in> set as"
  by (cases x) (auto dest: zip_left set_zip_rightD)

lemma not_rejected_upto_clone: "(c, Rejected e) \<notin> set (upto_clone ss svc k)"
  by (auto dest: in_upto_clone)

lemma not_rejected_upto_delete: "(c, Rejected e) \<notin> set (upto_delete ss svc k old)"
  by (auto dest: in_upto_delete)

lemma not_rejected_upto_main: "(c, Rejected e) \<notin> set (upto_main ss svc k old vcls m)"
  by (auto dest: in_upto_main)

lemma answer_not_failed: "\<forall>vr. y \<noteq> Validation vr \<Longrightarrow> \<not> answer_failed (Fulfilled y)"
  by (cases y) auto

lemma not_failed_upto_main: "x \<in> set (upto_main ss svc c old vcls m) \<Longrightarrow> \<not> step_failed x"
  by (auto simp: step_failed_def dest!: in_upto_main answer_not_failed)

lemma path_success:
  assumes "deploy_path i m vcls (Inr u) cs"
  shows "\<exists>ss svc c old vr. find (\<lambda>s. service_id s = i) ss = Some svc \<and> status vr = ''ok'' \<and>
           cs = upto_validate ss svc c old vcls m vr @ [(ActivateVersion (number c), Fulfilled Done)]"
  using assms by cases blast

lemma path_thrown:
  assumes "deploy_path i m vcls (Inl t) cs"
  shows "t = TypeError ''version'' Undefined \<or>
         t = Error ''VCL failed validation for some unknown reason'' \<or>
         (\<exists>c e. t = Foreign e \<and> (c, Rejected e) \<in> set cs)"
  using assms
proof cases
  case (p_delete ss svc as old e c)
  from \<open>Rejected e \<in> set as\<close> obtain k where k: "k < length as" "as ! k = Rejected e"
    by (auto simp: in_set_conv_nth)
  with \<open>length as = length old\<close>
  have "(DeleteVcl (number c) (vcl_name (old ! k)), Rejected e) \<in>
          set (zip (map (\<lambda>v. DeleteVcl (number c) (vcl_name v)) old) as)"
    by (auto simp: set_zip intro!: exI [of _ k])
  with p_delete show ?thesis by auto
next
  case (p_upload ss svc as e c old)
  from \<open>Rejected e \<in> set as\<close> obtain k where k: "k < length as" "as ! k = Rejected e"
    by (auto simp: in_set_conv_nth)
  with \<open>length as = length vcls\<close>
  have "(UpdateVcl (number c) (vcls ! k), Rejected e) \<in> set (zip (map (UpdateVcl (number c)) vcls) as)"
    by (auto simp: set_zip intro!: exI [of _ k])
  with p_upload show ?thesis by auto
qed auto

lemma path_stages:
  assumes "deploy_path i m vcls res cs"
  shows "(\<forall>x \<in> set cs. stage (fst x) \<le> 6) \<or>
         (\<exists>pre n vr a. cs = pre @ [(ValidateVersion n, Fulfilled (Validation vr)), (ActivateVersion n, a)] \<and>
            status vr = ''ok'' \<and> (\<forall>x \<in> set pre. stage (fst x) \<le> 5 \<and> \<not> step_failed x))"
  using assms
proof cases
  case (p_activate ss svc vr e c old)
  then have "cs = upto_main ss svc c old vcls m @
        [(ValidateVersion (number c), Fulfilled (Validation vr)), (ActivateVersion (number c), Rejected e)]"
    by (simp add: upto_validate_def)
  with p_activate show ?thesis
    by (blast dest: in_upto_main not_failed_upto_main)
next
  case (p_done ss svc vr c old)
  then have "cs = upto_main ss svc c old vcls m @
        [(ValidateVersion (number c), Fulfilled (Validation vr)), (ActivateVersion (number c), Fulfilled Done)]"
    by (simp add: upto_validate_def)
  with p_done show ?thesis
    by (blast dest: in_upto_main not_failed_upto_main)
qed (fastforce simp: upto_validate_def uploaded_def
       dest: in_upto_clone in_upto_delete in_upto_main in_zip_delete in_zip_upload)+


lemma path_failed_no_activate:
  assumes "deploy_path i m vcls res cs" and "\<exists>x \<in> set cs. step_failed x"
  shows "\<forall>x \<in> set cs. stage (fst x) \<le> 6"
  using path_stages [OF assms(1)]
proof
  assume "\<exists>pre n vr a. cs = pre @ [(ValidateVersion n, Fulfilled (Validation vr)), (ActivateVersion n, a)] \<and>
            status vr = ''ok'' \<and> (\<forall>x \<in> set pre. stage (fst x) \<le> 5 \<and> \<not> step_failed x)"
  then obtain pre n vr a where
    cs: "cs = pre @ [(ValidateVersion n, Fulfilled (Validation vr)), (ActivateVersion n, a)]"
    and ok: "status vr = ''ok''" and pre: "\<forall>x \<in> set pre. \<not> step_failed x"
    by blast
  from assms(2) obtain x where x: "x \<in> set cs" "step_failed x" by blast
  from x(1) cs have "x \<in> set pre \<or> x = (ValidateVersion n, Fulfilled (Validation vr)) \<or>
      x = (ActivateVersion n, a)" by auto
  with pre ok x(2) have False by (auto simp: step_failed_def)
  then show ?thesis ..
qed

lemma path_invalid:
  assumes "deploy_path i m vcls res cs"
    and "(ValidateVersion n, Fulfilled (Validation vr)) \<in> set cs" and "status vr \<noteq> ''ok''"
  shows "res = Inl (Error ''VCL failed validation for some unknown reason'') \<and>
         (\<forall>x \<in> set cs. stage (fst x) \<le> 6)"
  using assms(1)
proof cases
  case (p_invalid ss svc vr' c old)
  then show ?thesis
    by (fastforce simp: upto_validate_def dest: in_upto_main)
next
  case (p_validate ss svc e c old)
  with assms(2) show ?thesis by (fastforce dest: in_upto_main)
next
  case (p_activate ss svc vr' e c old)
  with assms(2,3) show ?thesis by (fastforce simp: upto_validate_def dest: in_upto_main)
next
  case (p_done ss svc vr' c old)
  with assms(2,3) show ?thesis by (fastforce simp: upto_validate_def dest: in_upto_main)
next
  case (p_main ss svc e c old)
  with assms(2) show ?thesis by (fastforce simp: uploaded_def dest: in_upto_delete)
next
  case (p_upload ss svc as e c old)
  with assms(2) show ?thesis by (fastforce dest: in_upto_delete in_zip_upload)
next
  case (p_delete ss svc as old e c)
  with assms(2) show ?thesis by (fastforce dest: in_upto_clone in_zip_delete)
next
  case (p_list ss svc e c)
  with assms(2) show ?thesis by (fastforce dest: in_upto_clone)
qed (use assms(2) in auto)

lemma path_rejected:
  assumes "deploy_path i m vcls res cs" and "(c, Rejected e) \<in> set cs" and "file_call c"
  shows "(\<forall>x \<in> set cs. stage (fst x) \<le> stage c) \<and>
         (\<exists>c' e'. res = Inl (Foreign e') \<and> (c', Rejected e') \<in> set cs \<and> file_call c' \<and>
                   stage c' = stage c)"
  using assms(1)
proof cases
  case (p_delete ss svc as old e0 k)
  from assms(2) p_delete(2) not_rejected_upto_clone
  have "(c, Rejected e) \<in> set (zip (map (\<lambda>v. DeleteVcl (number k) (vcl_name v)) old) as)" by auto
  from zip_left [OF this] have c: "stage c = 3" by auto
  from zip_rejected [OF p_delete(4,5), of "\<lambda>v. DeleteVcl (number k) (vcl_name v)"]
  obtain v :: vcl where
    "(DeleteVcl (number k) (vcl_name v), Rejected e0) \<in>
       set (zip (map (\<lambda>v. DeleteVcl (number k) (vcl_name v)) old) as)"
    by blast
  then have "(DeleteVcl (number k) (vcl_name v), Rejected e0) \<in> set cs"
    using p_delete(2) by simp
  moreover have "\<forall>x \<in> set cs. stage (fst x) \<le> 3"
    using p_delete(2) by (fastforce dest: in_upto_clone in_zip_delete)
  ultimately show ?thesis using c p_delete(1) by force
next
  case (p_upload ss svc as e0 k old)
  from assms(2) p_upload(2) not_rejected_upto_delete
  have "(c, Rejected e) \<in> set (zip (map (UpdateVcl (number k)) vcls) as)" by auto
  from zip_left [OF this] have c: "stage c = 4" by auto
  from zip_rejected [OF p_upload(4,5), of "UpdateVcl (number k)"]
  obtain v where
    "(UpdateVcl (number k) v, Rejected e0) \<in> set (zip (map (UpdateVcl (number k)) vcls) as)"
    by blast
  then have "(UpdateVcl (number k) v, Rejected e0) \<in> set cs"
    using p_upload(2) by simp
  moreover have "\<forall>x \<in> set cs. stage (fst x) \<le> 4"
    using p_upload(2) by (fastforce dest: in_upto_delete in_zip_upload)
  ultimately show ?thesis using c p_upload(1) by force
next
  case (p_list ss svc e0 k)
  with assms(2,3) not_rejected_upto_clone show ?thesis by auto
next
  case (p_main ss svc e0 k old)
  with assms(2,3) not_rejected_upto_delete show ?thesis by (auto simp: uploaded_def)
next
  case (p_validate ss svc e0 k old)
  with assms(2,3) not_rejected_upto_main show ?thesis by auto
next
  case (p_invalid ss svc vr k old)
  with assms(2,3) not_rejected_upto_main show ?thesis by (auto simp: upto_validate_def)
next
  case (p_activate ss svc vr e0 k old)
  with assms(2,3) not_rejected_upto_main show ?thesis by (auto simp: upto_validate_def)
next
  case (p_done ss svc vr k old)
  with assms(2,3) not_rejected_upto_main show ?thesis by (auto simp: upto_validate_def)
qed (use assms(2,3) in auto)



lemma deploy_never_throws_the_wrapper:
  assumes "deploy f options i vcls r = (Inl t, r')"
  shows "t \<noteq> ValidationError v"
proof -
  from deploy_sound [OF assms] obtain new where
    "deploy_path i (options_main options) vcls (Inl t) new" by blast
  from path_thrown [OF this] show ?thesis by auto
qed

section \<open>The remote system of the scenarios\<close>

lemma store_keeps_active: "keeps_active active (store_client u)"
  unfolding keeps_active_def
proof (intro allI impI)
  fix c s assume "\<forall>n. c \<noteq> ActivateVersion n"
  then show "active (snd (perform (store_client u) c s)) = active s"
    by (cases c) (auto simp: store_client_def attempt_def settle_def split: option.splits)
qed

lemma map_of_filter_name:
  "map_of (map (\<lambda>f. (vcl_name f, vcl_content f)) (filter (\<lambda>f. vcl_name f \<noteq> n) l)) =
   (map_of (map (\<lambda>f. (vcl_name f, vcl_content f)) l))(n := None)"
  by (induction l) (auto simp: fun_eq_iff)

lemma store_file_store: "file_store files_of (store_client u)"
  unfolding file_store_def
  by (auto simp: store_client_def attempt_def files_of_def dom_map_of_conv_image_fst image_image
        map_of_filter_name fun_eq_iff map_add_def split: option.splits)

section \<open>The runs of the scenarios\<close>

lemmas run_defs = task_def task_co_def settings_def resolveServiceId_def js_or_def env_lookup_def
  assign_defaults_def start_env_def set_SERVICEID_def load_vcls_def deploy_def get_service_def
  clone_version_def delete_old_vcl_def upload_new_vcl_def set_main_def validate_def activate_def
  and_then_def catch_with_def ret_def throw_def logger_def request_def yield_all_def
  task_catch_def exit_def store_client_def attempt_def scenario_deps_def scenario_env_def
  scenario_opts_def plan_ok_def store5_def new_files_def vcl_file_def plan_invalid_def
  plan_fault_def plan_other_def

text \<open>Scenario A: everything goes well.\<close>

lemma scenario_A_outcome:
  "fst (task (scenario_deps plan_ok) ''vcl'' scenario_opts scenario_env store5) = Resolved"
  by (simp add: run_defs)


text \<open>Scenario B: the validation answers with the status \<^verbatim>\<open>error\<close>.\<close>

lemma scenario_B_outcome:
  "fst (task (scenario_deps plan_invalid) ''vcl'' scenario_opts scenario_env store5) = Exited ''Bailing...''"
  by (simp add: run_defs)

lemma scenario_B_calls:
  "calls (snd (task (scenario_deps plan_invalid) ''vcl'' scenario_opts scenario_env store5)) =
     [(GetServices, Fulfilled (Services
         [\<lparr>service_id = ''svc1'', service_name = ''site'', service_version = 5\<rparr>])),
      (CloneVersion 5, Fulfilled (Cloned \<lparr>number = 6\<rparr>)),
      (GetVcl 6, Fulfilled (Vcls [vcl_file ''main.vcl'' ''old main'',
                                   vcl_file ''legacy.vcl'' ''old legacy''])),
      (DeleteVcl 6 ''main.vcl'', Fulfilled Done),
      (DeleteVcl 6 ''legacy.vcl'', Fulfilled Done),
      (UpdateVcl 6 (vcl_file ''main.vcl'' ''sub vcl_recv {}''), Fulfilled Done),
      (UpdateVcl 6 (vcl_file ''edge.vcl'' ''sub vcl_hit {}''), Fulfilled Done),
      (UpdateVcl 6 (vcl_file ''util.vcl'' ''sub vcl_miss {}''), Fulfilled Done),
      (SetVclAsMain 6 ''main.vcl'', Fulfilled Done),
      (ValidateVersion 6, Fulfilled (Validation
         \<lparr>status = ''error'', diagnostics = [''unknown variable X'']\<rparr>))]"
  by (simp add: run_defs)

lemma scenario_B_log:
  "log (snd (task (scenario_deps plan_invalid) ''vcl'' scenario_opts scenario_env store5)) =
     [LogVerbose (Msg [S ''Cloning active version '', N 5, S '' of '', S ''site'']),
      LogVerbose (Msg [S ''Successfully cloned version '', N 6]),
      LogInfo (Msg [S ''Cloned new version'']),
      LogVerbose (Msg [S ''Deleting '', S [CHR 0x22], S ''main.vcl'', S [CHR 0x22],
                       S '' for version '', N 6]),
      LogVerbose (Msg [S ''Deleting '', S [CHR 0x22], S ''legacy.vcl'', S [CHR 0x22],
                       S '' for version '', N 6]),
      LogInfo (Msg [S ''Deleted old vcl'']),
      LogInfo (Msg [S ''Uploading new VCL'']),
      LogVerbose (Msg [S ''Uploading new VCL '', S ''main.vcl'', S '' with version '', N 6]),
      LogVerbose (Msg [S ''Uploading new VCL '', S ''edge.vcl'', S '' with version '', N 6]),
      LogVerbose (Msg [S ''Uploading new VCL '', S ''util.vcl'', S '' with version '', N 6]),
      LogInfo (Msg [S ''Set '', S [CHR 0x22], S ''main.vcl'', S [CHR 0x22],
                    S '' as the main entry point'']),
      LogVerbose (Msg [S ''Validate version '', N 6]),
      LogError (Stack (Error ''VCL failed validation for some unknown reason''))]"
  by (simp add: run_defs)

lemma scenario_C_outcome:
  "fst (task (scenario_deps (plan_upload_fails n c)) ''vcl'' scenario_opts scenario_env store5) =
     (if vcl_file n c \<in> set new_files then Exited ''Bailing...'' else Resolved)"
  by (simp add: run_defs plan_upload_fails_def)

lemma scenario_C_log:
  "vcl_file n c \<in> set new_files \<Longrightarrow>
   log (snd (task (scenario_deps (plan_upload_fails n c)) ''vcl'' scenario_opts scenario_env store5)) =
     [LogVerbose (Msg [S ''Cloning active version '', N 5, S '' of '', S ''site'']),
      LogVerbose (Msg [S ''Successfully cloned version '', N 6]),
      LogInfo (Msg [S ''Cloned new version'']),
      LogVerbose (Msg [S ''Deleting '', S [CHR 0x22], S ''main.vcl'', S [CHR 0x22],
                       S '' for version '', N 6]),
      LogVerbose (Msg [S ''Deleting '', S [CHR 0x22], S ''legacy.vcl'', S [CHR 0x22],
                       S '' for version '', N 6]),
      LogInfo (Msg [S ''Deleted old vcl'']),
      LogInfo (Msg [S ''Uploading new VCL'']),
      LogVerbose (Msg [S ''Uploading new VCL '', S ''main.vcl'', S '' with version '', N 6]),
      LogVerbose (Msg [S ''Uploading new VCL '', S ''edge.vcl'', S '' with version '', N 6]),
      LogVerbose (Msg [S ''Uploading new VCL '', S ''util.vcl'', S '' with version '', N 6]),
      LogError (Stack (Foreign (Other ''boom'')))]"
  by (auto simp: run_defs plan_upload_fails_def)

lemma scenario_C_calls:
  "calls (snd (task (scenario_deps (plan_upload_fails ''edge.vcl'' ''sub vcl_hit {}'')) ''vcl''
                 scenario_opts scenario_env store5)) =
     [(GetServices, Fulfilled (Services
         [\<lparr>service_id = ''svc1'', service_name = ''site'', service_version = 5\<rparr>])),
      (CloneVersion 5, Fulfilled (Cloned \<lparr>number = 6\<rparr>)),
      (GetVcl 6, Fulfilled (Vcls [vcl_file ''main.vcl'' ''old main'',
                                   vcl_file ''legacy.vcl'' ''old legacy''])),
      (DeleteVcl 6 ''main.vcl'', Fulfilled Done),
      (DeleteVcl 6 ''legacy.vcl'', Fulfilled Done),
      (UpdateVcl 6 (vcl_file ''main.vcl'' ''sub vcl_recv {}''), Fulfilled Done),
      (UpdateVcl 6 (vcl_file ''edge.vcl'' ''sub vcl_hit {}''), Rejected (Other ''boom'')),
      (UpdateVcl 6 (vcl_file ''util.vcl'' ''sub vcl_miss {}''), Fulfilled Done)]"
  by (simp add: run_defs plan_upload_fails_def)

lemma scenario_C_calls_util:
  "calls (snd (task (scenario_deps (plan_upload_fails ''util.vcl'' ''sub vcl_miss {}'')) ''vcl''
                 scenario_opts scenario_env store5)) =
     [(GetServices, Fulfilled (Services
         [\<lparr>service_id = ''svc1'', service_name = ''site'', service_version = 5\<rparr>])),
      (CloneVersion 5, Fulfilled (Cloned \<lparr>number = 6\<rparr>)),
      (GetVcl 6, Fulfilled (Vcls [vcl_file ''main.vcl'' ''old main'',
                                   vcl_file ''legacy.vcl'' ''old legacy''])),
      (DeleteVcl 6 ''main.vcl'', Fulfilled Done),
      (DeleteVcl 6 ''legacy.vcl'', Fulfilled Done),
      (UpdateVcl 6 (vcl_file ''main.vcl'' ''sub vcl_recv {}''), Fulfilled Done),
      (UpdateVcl 6 (vcl_file ''edge.vcl'' ''sub vcl_hit {}''), Fulfilled Done),
      (UpdateVcl 6 (vcl_file ''util.vcl'' ''sub vcl_miss {}''), Rejected (Other ''boom''))]"
  by (simp add: run_defs plan_upload_fails_def)

text \<open>Here the validation call is rejected with the reason \<^verbatim>\<open>socket hang up\<close>.\<close>

lemma scenario_V_outcome:
  "fst (task (scenario_deps (plan_fault (ValidateVersion 6) (Other ''socket hang up''))) ''vcl''
          scenario_opts scenario_env store5) = Exited ''Bailing...''"
  by (simp add: run_defs)

lemma scenario_V_calls:
  "calls (snd (task (scenario_deps (plan_fault (ValidateVersion 6) (Other ''socket hang up''))) ''vcl''
          scenario_opts scenario_env store5)) =
     [(GetServices, Fulfilled (Services
         [\<lparr>service_id = ''svc1'', service_name = ''site'', service_version = 5\<rparr>])),
      (CloneVersion 5, Fulfilled (Cloned \<lparr>number = 6\<rparr>)),
      (GetVcl 6, Fulfilled (Vcls [vcl_file ''main.vcl'' ''old main'',
                                   vcl_file ''legacy.vcl'' ''old legacy''])),
      (DeleteVcl 6 ''main.vcl'', Fulfilled Done),
      (DeleteVcl 6 ''legacy.vcl'', Fulfilled Done),
      (UpdateVcl 6 (vcl_file ''main.vcl'' ''sub vcl_recv {}''), Fulfilled Done),
      (UpdateVcl 6 (vcl_file ''edge.vcl'' ''sub vcl_hit {}''), Fulfilled Done),
      (UpdateVcl 6 (vcl_file ''util.vcl'' ''sub vcl_miss {}''), Fulfilled Done),
      (SetVclAsMain 6 ''main.vcl'', Fulfilled Done),
      (ValidateVersion 6, Rejected (Other ''socket hang up''))]"
  by (simp add: run_defs)

lemma scenario_V_log:
  "log (snd (task (scenario_deps (plan_fault (ValidateVersion 6) (Other ''socket hang up''))) ''vcl''
          scenario_opts scenario_env store5)) =
     [LogVerbose (Msg [S ''Cloning active version '', N 5, S '' of '', S ''site'']),
      LogVerbose (Msg [S ''Successfully cloned version '', N 6]),
      LogInfo (Msg [S ''Cloned new version'']),
      LogVerbose (Msg [S ''Deleting '', S [CHR 0x22], S ''main.vcl'', S [CHR 0x22],
                       S '' for version '', N 6]),
      LogVerbose (Msg [S ''Deleting '', S [CHR 0x22], S ''legacy.vcl'', S [CHR 0x22],
                       S '' for version '', N 6]),
      LogInfo (Msg [S ''Deleted old vcl'']),
      LogInfo (Msg [S ''Uploading new VCL'']),
      LogVerbose (Msg [S ''Uploading new VCL '', S ''main.vcl'', S '' with version '', N 6]),
      LogVerbose (Msg [S ''Uploading new VCL '', S ''edge.vcl'', S '' with version '', N 6]),
      LogVerbose (Msg [S ''Uploading new VCL '', S ''util.vcl'', S '' with version '', N 6]),
      LogInfo (Msg [S ''Set '', S [CHR 0x22], S ''main.vcl'', S [CHR 0x22],
                    S '' as the main entry point'']),
      LogVerbose (Msg [S ''Validate version '', N 6]),
      LogError (Stack (Foreign (Other ''socket hang up'')))]"
  by (simp add: run_defs)

section \<open>The calls of a successful run\<close>




section \<open>A failed step and the activation\<close>

lemma stage_activate: "stage c \<le> 6 \<longleftrightarrow> (\<forall>n. c \<noteq> ActivateVersion n)"
  by (cases c) auto

lemma recorded_keeps_active:
  assumes "keeps_active act f"
  shows "recorded f s cs s' \<Longrightarrow> \<forall>x \<in> set cs. stage (fst x) \<le> 6 \<Longrightarrow> act s' = act s"
proof (induction cs arbitrary: s)
  case Nil
  then show ?case by simp
next
  case (Cons x cs)
  from Cons.prems have "stage (fst x) \<le> 6" by simp
  with assms have "act (snd (perform f (fst x) s)) = act s"
    by (simp add: keeps_active_def stage_activate)
  moreover from Cons.IH [of "snd (perform f (fst x) s)"] Cons.prems
  have "act s' = act (snd (perform f (fst x) s))" by simp
  ultimately show ?case by simp
qed

text \<open>
  C2: in every run in which a step from the clone to the validation fails (a call of
  these steps is rejected, or the validation answers with a status other than ok),
  \<^verbatim>\<open>activateVersion\<close> is never called; and whatever the client's other methods leave
  alone (the active version of the service, for one) is at the end of the run what it
  was at its start.
\<close>

theorem failed_step_never_activates:
  assumes run: "task d folder opts e s = (out, r)"
    and failed: "\<exists>x \<in> set (calls r). step_failed x"
  shows "(\<forall>n a. (ActivateVersion n, a) \<notin> set (calls r)) \<and>
         ((\<forall>k i. keeps_active act (require_fastly d k i)) \<longrightarrow> act (remote r) = act s)"
proof -
  have low: ?thesis
    if "recorded (require_fastly d k j) s (calls r) (remote r)"
      and "\<forall>x \<in> set (calls r). stage (fst x) \<le> 6" for k j
  proof (intro conjI allI impI)
    fix n a show "(ActivateVersion n, a) \<notin> set (calls r)"
      using that(2) by force
  next
    assume "\<forall>k i. keeps_active act (require_fastly d k i)"
    then have "keeps_active act (require_fastly d k j)" by simp
    from recorded_keeps_active [OF this that] show "act (remote r) = act s" .
  qed
  from run show ?thesis
  proof (cases rule: task_elim)
    case (config t)
    with failed task_catch_frame [OF config(2)] show ?thesis by simp
  next
    case (load k i x r0)
    with failed task_catch_frame [OF load(6)] show ?thesis by simp
  next
    case (failed k i vcls t r1)
    from task_catch_frame [OF failed(5)] have same: "calls r = calls r1" "remote r = remote r1" by simp_all
    with path_failed_no_activate [OF failed(3)] assms(2)
    have "\<forall>x \<in> set (calls r). stage (fst x) \<le> 6" by simp
    with low [of k "encodeURIComponent d i"] failed(4) same show ?thesis by simp
  next
    case (finished k i vcls)
    with path_failed_no_activate [OF finished(3)] assms(2)
    have "\<forall>x \<in> set (calls r). stage (fst x) \<le> 6" by simp
    with low [of k "encodeURIComponent d i"] finished(4) show ?thesis by simp
  qed
qed

theorem failed_step_never_activates_witness:
  "(\<exists>x \<in> set (calls (snd (task (scenario_deps plan_invalid) ''vcl'' scenario_opts scenario_env store5))).
       step_failed x) \<and>
   (\<forall>k i. keeps_active active (require_fastly (scenario_deps plan_invalid) k i)) \<and>
   (\<forall>n a. (ActivateVersion n, a) \<notin>
       set (calls (snd (task (scenario_deps plan_invalid) ''vcl'' scenario_opts scenario_env store5)))) \<and>
   active (remote (snd (task (scenario_deps plan_invalid) ''vcl'' scenario_opts scenario_env store5))) =
     active store5"
proof -
  let ?t = "task (scenario_deps plan_invalid) ''vcl'' scenario_opts scenario_env store5"
  have f: "\<exists>x \<in> set (calls (snd ?t)). step_failed x"
    by (simp add: scenario_B_calls step_failed_def)
  have k: "\<forall>k i. keeps_active active (require_fastly (scenario_deps plan_invalid) k i)"
    by (simp add: scenario_deps_def store_keeps_active)
  from failed_step_never_activates [of "scenario_deps plan_invalid" "''vcl''" scenario_opts scenario_env
      store5, OF surjective_pairing f, of active] f k
  show ?thesis by blast
qed

section \<open>A validation call that is rejected\<close>

text \<open>
  C3: when the validation call itself is rejected, the claim has the run fail with the
  wrapper tagged \<^verbatim>\<open>VCL_VALIDATION_ERROR\<close>, which the handler reports in its branch for
  validation errors. The code builds the wrapper and then throws the reason it was
  given (line 97): the handler logs the stack of that reason in its generic branch, and
  the line \<^verbatim>\<open>VCL Validation Error\<close> is not logged.
\<close>

theorem rejected_validation_call_takes_generic_branch:
  "fst (task (scenario_deps (plan_fault (ValidateVersion 6) (Other ''socket hang up''))) ''vcl''
          scenario_opts scenario_env store5) = Exited ''Bailing...'' \<and>
   last (calls (snd (task (scenario_deps (plan_fault (ValidateVersion 6) (Other ''socket hang up'')))
          ''vcl'' scenario_opts scenario_env store5))) =
     (ValidateVersion 6, Rejected (Other ''socket hang up'')) \<and>
   last (log (snd (task (scenario_deps (plan_fault (ValidateVersion 6) (Other ''socket hang up'')))
          ''vcl'' scenario_opts scenario_env store5))) =
     LogError (Stack (Foreign (Other ''socket hang up''))) \<and>
   LogError (Msg [S ''VCL Validation Error'']) \<notin>
     set (log (snd (task (scenario_deps (plan_fault (ValidateVersion 6) (Other ''socket hang up'')))
          ''vcl'' scenario_opts scenario_env store5)))"
  by (simp add: scenario_V_outcome scenario_V_calls scenario_V_log)

section \<open>A validation that says no\<close>

text \<open>
  C4, as amended: in every run in which the validation call is fulfilled with a status
  other than ok, the deployment fails with the Error of line 103, whose message is
  fixed and which carries nothing of the answer; the handler reports it as it reports
  any other error, by logging its stack, and calls exit; \<^verbatim>\<open>activateVersion\<close> is not
  called.
\<close>

theorem rejected_validation_is_a_plain_error:
  assumes "task d folder opts e s = (out, r)"
    and "(ValidateVersion n, Fulfilled (Validation vr)) \<in> set (calls r)"
    and "status vr \<noteq> ''ok''"
  shows "out = Exited ''Bailing...'' \<and>
         (\<exists>l. log r = l @ [LogError (Stack (Error ''VCL failed validation for some unknown reason''))]) \<and>
         (\<forall>n a. (ActivateVersion n, a) \<notin> set (calls r))"
  using assms(1)
proof (cases rule: task_elim)
  case (config t)
  with assms(2) task_catch_frame [OF config(2)] show ?thesis by simp
next
  case (load k i x r0)
  with assms(2) task_catch_frame [OF load(6)] show ?thesis by simp
next
  case (failed k i vcls t r1)
  from task_catch_frame [OF failed(5)] have same: "calls r = calls r1" by simp
  from path_invalid [OF failed(3) assms(2) [unfolded same] assms(3)]
  have t: "t = Error ''VCL failed validation for some unknown reason''"
    and low: "\<forall>x \<in> set (calls r1). stage (fst x) \<le> 6" by simp_all
  from low same have "\<forall>n a. (ActivateVersion n, a) \<notin> set (calls r)" by force
  with failed(5) t show ?thesis by auto
next
  case (finished k i vcls)
  from path_invalid [OF finished(3) assms(2,3)] show ?thesis by simp
qed

theorem rejected_validation_witness:
  "(ValidateVersion 6, Fulfilled (Validation \<lparr>status = ''error'', diagnostics = [''unknown variable X'']\<rparr>))
     \<in> set (calls (snd (task (scenario_deps plan_invalid) ''vcl'' scenario_opts scenario_env store5))) \<and>
   status \<lparr>status = ''error'', diagnostics = [''unknown variable X'']\<rparr> \<noteq> ''ok'' \<and>
   fst (task (scenario_deps plan_invalid) ''vcl'' scenario_opts scenario_env store5) =
     Exited ''Bailing...'' \<and>
   (\<exists>l. log (snd (task (scenario_deps plan_invalid) ''vcl'' scenario_opts scenario_env store5)) =
        l @ [LogError (Stack (Error ''VCL failed validation for some unknown reason''))])"
proof -
  let ?t = "task (scenario_deps plan_invalid) ''vcl'' scenario_opts scenario_env store5"
  let ?vr = "\<lparr>status = ''error'', diagnostics = [''unknown variable X'']\<rparr>"
  have m: "(ValidateVersion 6, Fulfilled (Validation ?vr)) \<in> set (calls (snd ?t))"
    by (simp add: scenario_B_calls)
  have n: "status ?vr \<noteq> ''ok''" by simp
  from rejected_validation_is_a_plain_error [OF surjective_pairing m n] m n
  show ?thesis by blast
qed

text \<open>
  C4 as the specification states it fails in scenario B: the validation answers
  \<^verbatim>\<open>{status: "error", diagnostics: ["unknown variable X"]}\<close>, and what is reported is the
  stack of the Error of line 103, not the line \<^verbatim>\<open>VCL Validation Error\<close> of the branch for
  validation errors; with other diagnostics in the answer the outcome and the whole log
  are the same, so nothing of the diagnostics is reported.
\<close>

theorem rejected_validation_counterexample:
  "last (log (snd (task (scenario_deps plan_invalid) ''vcl'' scenario_opts scenario_env store5))) =
     LogError (Stack (Error ''VCL failed validation for some unknown reason'')) \<and>
   LogError (Msg [S ''VCL Validation Error'']) \<notin>
     set (log (snd (task (scenario_deps plan_invalid) ''vcl'' scenario_opts scenario_env store5))) \<and>
   fst (task (scenario_deps plan_invalid_other) ''vcl'' scenario_opts scenario_env store5) =
     fst (task (scenario_deps plan_invalid) ''vcl'' scenario_opts scenario_env store5) \<and>
   log (snd (task (scenario_deps plan_invalid_other) ''vcl'' scenario_opts scenario_env store5)) =
     log (snd (task (scenario_deps plan_invalid) ''vcl'' scenario_opts scenario_env store5))"
proof -
  have "fst (task (scenario_deps plan_invalid_other) ''vcl'' scenario_opts scenario_env store5) =
          Exited ''Bailing...''"
    by (simp add: run_defs plan_invalid_other_def)
  moreover have "log (snd (task (scenario_deps plan_invalid_other) ''vcl'' scenario_opts scenario_env store5)) =
      log (snd (task (scenario_deps plan_invalid) ''vcl'' scenario_opts scenario_env store5))"
    by (simp add: run_defs plan_invalid_other_def)
  ultimately show ?thesis
    by (simp add: scenario_B_log scenario_B_outcome)
qed

section \<open>The files of the version that is activated\<close>

lemma settle_Fulfilled:
  "fst (settle w p) = Fulfilled y \<Longrightarrow> \<exists>x. p = (Inr x, snd (settle w p)) \<and> y = w x"
  by (auto simp: settle_def split: prod.splits sum.splits)

lemma file_store_list:
  assumes "file_store fl f" and "getVcl f v s = (Inr old, s')"
  shows "fl s' v = fl s v \<and> vcl_name ` set old = dom (fl s v)"
  using assms unfolding file_store_def by meson

lemma file_store_delete:
  assumes "file_store fl f" and "deleteVcl f v n s = (Inr u, s')"
  shows "fl s' v = (fl s v)(n := None)"
  using assms unfolding file_store_def by meson

lemma file_store_update:
  assumes "file_store fl f" and "updateVcl f v x s = (Inr u, s')"
  shows "fl s' v = (fl s v)(vcl_name x \<mapsto> vcl_content x)"
  using assms unfolding file_store_def by meson

lemma file_store_others:
  assumes "file_store fl f"
  shows "setVclAsMain f v n s = (Inr u, s') \<Longrightarrow> fl s' v = fl s v"
    and "validateVersion f v s = (Inr x, s') \<Longrightarrow> fl s' v = fl s v"
    and "activateVersion f v s = (Inr u, s') \<Longrightarrow> fl s' v = fl s v"
  using assms unfolding file_store_def by meson+

lemma recorded_deleted:
  assumes "file_store fl f"
  shows "recorded f s (deleted n old) s' \<Longrightarrow> fl s' n = fl s n |` (- vcl_name ` set old)"
proof (induction old arbitrary: s)
  case Nil
  then show ?case by (simp add: deleted_def)
next
  case (Cons x old)
  let ?s1 = "snd (perform f (DeleteVcl n (vcl_name x)) s)"
  from Cons.prems have one: "fst (settle (\<lambda>_. Done) (deleteVcl f n (vcl_name x) s)) = Fulfilled Done"
    and rest: "recorded f ?s1 (deleted n old) s'"
    by (simp_all add: deleted_def)
  from settle_Fulfilled [OF one] obtain u where
    "deleteVcl f n (vcl_name x) s = (Inr u, ?s1)" by auto
  from file_store_delete [OF assms this] have "fl ?s1 n = (fl s n)(vcl_name x := None)" .
  with Cons.IH [OF rest] show ?case
    by (auto simp: restrict_map_def fun_eq_iff)
qed

lemma recorded_uploaded:
  assumes "file_store fl f"
  shows "recorded f s (uploaded n vcls) s' \<Longrightarrow>
         fl s' n = fl s n ++ map_of (rev (map (\<lambda>v. (vcl_name v, vcl_content v)) vcls))"
proof (induction vcls arbitrary: s)
  case Nil
  then show ?case by (simp add: uploaded_def)
next
  case (Cons x vcls)
  let ?s1 = "snd (perform f (UpdateVcl n x) s)"
  from Cons.prems have one: "fst (settle (\<lambda>_. Done) (updateVcl f n x s)) = Fulfilled Done"
    and rest: "recorded f ?s1 (uploaded n vcls) s'"
    by (simp_all add: uploaded_def)
  from settle_Fulfilled [OF one] obtain u where "updateVcl f n x s = (Inr u, ?s1)" by auto
  from file_store_update [OF assms this] have "fl ?s1 n = (fl s n)(vcl_name x \<mapsto> vcl_content x)" .
  with Cons.IH [OF rest] show ?case
    by (simp add: map_add_upd_left map_add_def fun_eq_iff split: option.splits)
qed

lemma recorded_tail:
  assumes "file_store fl f"
    and "recorded f s [(SetVclAsMain n m, Fulfilled Done), (ValidateVersion n, Fulfilled (Validation vr)),
                       (ActivateVersion n, Fulfilled Done)] s'"
  shows "fl s' n = fl s n"
proof -
  let ?s1 = "snd (perform f (SetVclAsMain n m) s)"
  let ?s2 = "snd (perform f (ValidateVersion n) ?s1)"
  from assms(2) have
    a: "fst (settle (\<lambda>_. Done) (setVclAsMain f n m s)) = Fulfilled Done" and
    b: "fst (settle Validation (validateVersion f n ?s1)) = Fulfilled (Validation vr)" and
    c: "fst (settle (\<lambda>_. Done) (activateVersion f n ?s2)) = Fulfilled Done" and
    d: "s' = snd (perform f (ActivateVersion n) ?s2)"
    by simp_all
  from settle_Fulfilled [OF a] obtain u1 where "setVclAsMain f n m s = (Inr u1, ?s1)" by auto
  from file_store_others(1) [OF assms(1) this] have "fl ?s1 n = fl s n" .
  moreover from settle_Fulfilled [OF b] obtain x where "validateVersion f n ?s1 = (Inr x, ?s2)" by auto
  from file_store_others(2) [OF assms(1) this] have "fl ?s2 n = fl ?s1 n" .
  moreover from settle_Fulfilled [OF c] d obtain u3 where "activateVersion f n ?s2 = (Inr u3, s')" by auto
  from file_store_others(3) [OF assms(1) this] have "fl s' n = fl ?s2 n" .
  ultimately show ?thesis by simp
qed

lemma recorded_listed:
  assumes "file_store fl f" and "recorded f s [(GetVcl n, Fulfilled (Vcls old))] s'"
  shows "fl s' n = fl s n \<and> vcl_name ` set old = dom (fl s n)"
proof -
  from assms(2) have a: "fst (settle Vcls (getVcl f n s)) = Fulfilled (Vcls old)"
    and d: "s' = snd (perform f (GetVcl n) s)" by simp_all
  from settle_Fulfilled [OF a] d have "getVcl f n s = (Inr old, s')" by auto
  from file_store_list [OF assms(1) this] show ?thesis .
qed

lemma recorded_success:
  assumes fs: "file_store fl f"
    and rec: "recorded f s (upto_validate ss svc c old vcls m vr @
                            [(ActivateVersion (number c), Fulfilled Done)]) s'"
  shows "fl s' (number c) = map_of (rev (map (\<lambda>v. (vcl_name v, vcl_content v)) vcls))"
proof -
  let ?n = "number c"
  have split: "upto_validate ss svc c old vcls m vr @ [(ActivateVersion ?n, Fulfilled Done)] =
      upto_clone ss svc c @ [(GetVcl ?n, Fulfilled (Vcls old))] @ deleted ?n old @ uploaded ?n vcls @
      [(SetVclAsMain ?n m, Fulfilled Done), (ValidateVersion ?n, Fulfilled (Validation vr)),
       (ActivateVersion ?n, Fulfilled Done)]"
    by (simp add: upto_validate_def upto_main_def upto_delete_def)
  from rec [unfolded split recorded_append] obtain s1 s2 s3 s4 where
    r2: "recorded f s1 [(GetVcl ?n, Fulfilled (Vcls old))] s2" and
    r3: "recorded f s2 (deleted ?n old) s3" and
    r4: "recorded f s3 (uploaded ?n vcls) s4" and
    r5: "recorded f s4 [(SetVclAsMain ?n m, Fulfilled Done),
                        (ValidateVersion ?n, Fulfilled (Validation vr)),
                        (ActivateVersion ?n, Fulfilled Done)] s'"
    by blast
  from recorded_listed [OF fs r2] have l: "fl s2 ?n = fl s1 ?n" "vcl_name ` set old = dom (fl s1 ?n)"
    by simp_all
  from recorded_deleted [OF fs r3] l have "fl s3 ?n = Map.empty"
    by (auto simp: restrict_map_def fun_eq_iff)
  with recorded_uploaded [OF fs r4]
  have "fl s4 ?n = map_of (rev (map (\<lambda>v. (vcl_name v, vcl_content v)) vcls))" by simp
  with recorded_tail [OF fs r5] show ?thesis by simp
qed

text \<open>
  C5: after a run that completes, the files of the version it activated are exactly the
  files to deploy, as \<^verbatim>\<open>loadVcl\<close> gave them (a later file of the list wins over an
  earlier one of the same name): each file the clone had inherited was deleted before the
  first upload, so none of them is left unless it is one of the files to deploy.
\<close>

theorem activated_version_has_the_source_files:
  assumes "task d folder opts e s = (out, r)" and "out = Resolved"
    and "\<forall>k i. file_store fl (require_fastly d k i)"
  shows "\<exists>n vcls. last (calls r) = (ActivateVersion n, Fulfilled Done) \<and>
           loadVcl d folder (options_vars (assign_defaults opts)) (env r) = Inr vcls \<and>
           fl (remote r) n = map_of (rev (map (\<lambda>v. (vcl_name v, vcl_content v)) vcls)) \<and>
           dom (fl (remote r) n) = vcl_name ` set vcls"
  using assms(1)
proof (cases rule: task_elim)
  case (config t)
  with task_catch_not_Resolved [OF config(2)] assms(2) show ?thesis by simp
next
  case (load k i x r0)
  with task_catch_not_Resolved [OF load(6)] assms(2) show ?thesis by simp
next
  case (failed k i vcls t r1)
  with task_catch_not_Resolved [OF failed(5)] assms(2) show ?thesis by simp
next
  case (finished k i vcls)
  from path_success [OF finished(3)] obtain ss svc c old vr where
    cs: "calls r = upto_validate ss svc c old vcls (options_main (assign_defaults opts)) vr @
               [(ActivateVersion (number c), Fulfilled Done)]"
    by blast
  from assms(3) have "file_store fl (require_fastly d k (encodeURIComponent d i))" by simp
  from recorded_success [OF this finished(4) [unfolded cs]]
  have fl: "fl (remote r) (number c) = map_of (rev (map (\<lambda>v. (vcl_name v, vcl_content v)) vcls))" .
  then have "dom (fl (remote r) (number c)) = vcl_name ` set vcls"
    by (simp add: dom_map_of_conv_image_fst image_image)
  with cs fl finished(2) show ?thesis by simp
qed

theorem activated_version_witness:
  "fst (task (scenario_deps plan_ok) ''vcl'' scenario_opts scenario_env store5) = Resolved \<and>
   (\<forall>k i. file_store files_of (require_fastly (scenario_deps plan_ok) k i)) \<and>
   (\<exists>n. last (calls (snd (task (scenario_deps plan_ok) ''vcl'' scenario_opts scenario_env store5))) =
          (ActivateVersion n, Fulfilled Done) \<and>
        files_of (remote (snd (task (scenario_deps plan_ok) ''vcl'' scenario_opts scenario_env store5))) n =
          map_of (rev (map (\<lambda>v. (vcl_name v, vcl_content v)) new_files)))"
proof -
  let ?d = "scenario_deps plan_ok"
  have fs: "\<forall>k i. file_store files_of (require_fastly ?d k i)"
    by (simp add: scenario_deps_def store_file_store)
  have ld: "loadVcl ?d folder vs en = Inr new_files" for folder vs en
    by (simp add: scenario_deps_def)
  from activated_version_has_the_source_files [OF surjective_pairing scenario_A_outcome fs] fs
    scenario_A_outcome
  show ?thesis by (auto simp: ld)
qed

section \<open>Configuration errors\<close>

lemma resolveServiceId_truthy:
  "truthy (opts_service opts) \<Longrightarrow> truthy (resolveServiceId e opts)"
  by (simp add: resolveServiceId_def js_or_def)

lemma settings_Inl:
  assumes "\<not> truthy (e ''FASTLY_APIKEY'') \<or> \<not> truthy (opts_service opts) \<or>
           \<not> truthy (resolveServiceId e opts)"
  shows "settings (assign_defaults opts) opts e =
           Inl (Error (if \<not> truthy (opts_service opts)
                       then ''the service parameter is required set to the service id of a environment variable name''
                       else ''FASTLY_APIKEY not found''))"
  using assms resolveServiceId_truthy [of opts e]
  by (auto simp: settings_def assign_defaults_def)

text \<open>
  C6: when the API credential is missing from the environment, or the service parameter
  is missing, or the service identifier comes out empty, the run fails with a
  configuration error (the handler logs it and calls exit) and no call to the remote
  client is made. The third condition never holds without the second: the message
  \<^verbatim>\<open>No service\<close> of line 45 is never thrown.
\<close>

theorem configuration_error_before_any_call:
  assumes "task d folder opts e s = (out, r)"
    and "\<not> truthy (start_env d opts e ''FASTLY_APIKEY'') \<or> \<not> truthy (opts_service opts) \<or>
         \<not> truthy (resolveServiceId (start_env d opts e) opts)"
  shows "out = Exited ''Bailing...'' \<and> calls r = [] \<and> remote r = s \<and>
         log r = [LogError (Stack (Error
           (if \<not> truthy (opts_service opts)
            then ''the service parameter is required set to the service id of a environment variable name''
            else ''FASTLY_APIKEY not found'')))]"
  using assms(1) settings_Inl [OF assms(2)]
  by (auto simp: task_def task_co_def)

text \<open>Scenario D: the service parameter is the empty string and the environment is empty.\<close>

theorem configuration_error_witness:
  "\<not> truthy (opts_service (opts_for (Some []))) \<and>
   fst (task (scenario_deps plan_ok) ''vcl'' (opts_for (Some [])) Map.empty store5) =
     Exited ''Bailing...'' \<and>
   calls (snd (task (scenario_deps plan_ok) ''vcl'' (opts_for (Some [])) Map.empty store5)) = [] \<and>
   log (snd (task (scenario_deps plan_ok) ''vcl'' (opts_for (Some [])) Map.empty store5)) =
     [LogError (Stack (Error
        ''the service parameter is required set to the service id of a environment variable name''))]"
proof -
  have h: "\<not> truthy (opts_service (opts_for (Some [])))"
    by (simp add: opts_for_def)
  from configuration_error_before_any_call
    [of "scenario_deps plan_ok" "''vcl''" "opts_for (Some [])" Map.empty store5,
     OF surjective_pairing disjI2 [OF disjI1 [OF h]]] h
  show ?thesis by simp
qed

section \<open>A service that is not in the list\<close>

text \<open>
  C7: when no service of the list has the identifier looked for, the claim has the run
  fail with an error of its own that names the condition. The code reads
  \<^verbatim>\<open>service.version\<close> of the \<^verbatim>\<open>undefined\<close> that \<^verbatim>\<open>find\<close> returned (line 59): the run
  fails with the TypeError of that read, after the one call for the service list.
\<close>

theorem missing_service_is_a_type_error:
  "fst (task (scenario_deps plan_other) ''vcl'' scenario_opts scenario_env store5) =
     Exited ''Bailing...'' \<and>
   calls (snd (task (scenario_deps plan_other) ''vcl'' scenario_opts scenario_env store5)) =
     [(GetServices, Fulfilled (Services
         [\<lparr>service_id = ''other'', service_name = ''site'', service_version = 5\<rparr>]))] \<and>
   log (snd (task (scenario_deps plan_other) ''vcl'' scenario_opts scenario_env store5)) =
     [LogError (Stack (TypeError ''version'' Undefined))]"
  by (simp add: run_defs)

section \<open>A deletion or an upload that is rejected\<close>

text \<open>
  C8, as amended: when a deletion or an upload is rejected, the run fails; every call it
  has made belongs to that step or to an earlier one (nothing is undone, the entry point
  is not set, nothing is validated or activated); and what the run fails with is the
  reason of a rejected deletion or upload of that step, passed on as the client gave it:
  the handler logs its stack and calls exit (or throws on it, when it is undefined or
  null).
\<close>

theorem rejected_file_call_fails_the_step:
  assumes "task d folder opts e s = (out, r)" and "(c, Rejected x) \<in> set (calls r)"
    and "file_call c"
  shows "out \<noteq> Resolved \<and> (\<forall>y \<in> set (calls r). stage (fst y) \<le> stage c) \<and>
         (\<exists>c' x'. (c', Rejected x') \<in> set (calls r) \<and> file_call c' \<and> stage c' = stage c \<and>
            (if x' = Undefined \<or> x' = Null then out = RejectedWith (TypeError ''type'' x')
             else out = Exited ''Bailing...'' \<and> (\<exists>l. log r = l @ [LogError (Stack (Foreign x'))])))"
  using assms(1)
proof (cases rule: task_elim)
  case (config t)
  with assms(2) task_catch_frame [OF config(2)] show ?thesis by simp
next
  case (load k i x r0)
  with assms(2) task_catch_frame [OF load(6)] show ?thesis by simp
next
  case (failed k i vcls t r1)
  from task_catch_frame [OF failed(5)] have same: "calls r = calls r1" by simp
  from path_rejected [OF failed(3) assms(2) [unfolded same] assms(3)] obtain c' x' where
    low: "\<forall>y \<in> set (calls r1). stage (fst y) \<le> stage c" and
    t: "t = Foreign x'" and c': "(c', Rejected x') \<in> set (calls r1)" "file_call c'" "stage c' = stage c"
    by auto
  from failed(5) t have fin:
    "if x' = Undefined \<or> x' = Null then out = RejectedWith (TypeError ''type'' x')
     else out = Exited ''Bailing...'' \<and> (\<exists>l. log r = l @ [LogError (Stack (Foreign x'))])"
    by (auto simp: task_catch_Foreign)
  from c' same have "(c', Rejected x') \<in> set (calls r)" by simp
  with c'(2,3) fin have "\<exists>c' x'. (c', Rejected x') \<in> set (calls r) \<and> file_call c' \<and>
      stage c' = stage c \<and>
      (if x' = Undefined \<or> x' = Null then out = RejectedWith (TypeError ''type'' x')
       else out = Exited ''Bailing...'' \<and> (\<exists>l. log r = l @ [LogError (Stack (Foreign x'))]))"
    by blast
  moreover from low same have "\<forall>y \<in> set (calls r). stage (fst y) \<le> stage c" by simp
  ultimately show ?thesis using task_catch_not_Resolved [OF failed(5)] by blast
next
  case (finished k i vcls)
  from path_rejected [OF finished(3) assms(2,3)] show ?thesis by simp
qed

theorem rejected_file_call_witness:
  "(UpdateVcl 6 (vcl_file ''edge.vcl'' ''sub vcl_hit {}''), Rejected (Other ''boom'')) \<in>
     set (calls (snd (task (scenario_deps (plan_upload_fails ''edge.vcl'' ''sub vcl_hit {}'')) ''vcl''
                        scenario_opts scenario_env store5))) \<and>
   file_call (UpdateVcl 6 (vcl_file ''edge.vcl'' ''sub vcl_hit {}'')) \<and>
   fst (task (scenario_deps (plan_upload_fails ''edge.vcl'' ''sub vcl_hit {}'')) ''vcl''
          scenario_opts scenario_env store5) \<noteq> Resolved \<and>
   map (\<lambda>y. stage (fst y))
     (calls (snd (task (scenario_deps (plan_upload_fails ''edge.vcl'' ''sub vcl_hit {}'')) ''vcl''
                    scenario_opts scenario_env store5))) = [1, 2, 3, 3, 3, 4, 4, 4]"
proof -
  let ?t = "task (scenario_deps (plan_upload_fails ''edge.vcl'' ''sub vcl_hit {}'')) ''vcl''
              scenario_opts scenario_env store5"
  have a: "(UpdateVcl 6 (vcl_file ''edge.vcl'' ''sub vcl_hit {}''), Rejected (Other ''boom'')) \<in>
             set (calls (snd ?t))"
    by (simp add: scenario_C_calls)
  have b: "file_call (UpdateVcl 6 (vcl_file ''edge.vcl'' ''sub vcl_hit {}''))" by simp
  from rejected_file_call_fails_the_step [OF surjective_pairing a b] a b
  show ?thesis by (simp add: scenario_C_calls)
qed

text \<open>
  C8 as the specification states it fails in scenario C: whether the upload of
  \<^verbatim>\<open>edge.vcl\<close> or the upload of \<^verbatim>\<open>util.vcl\<close> is the one rejected, the outcome and
  everything logged are the same, and the error reported is the reason the client gave:
  the failure does not name the file.
\<close>

theorem rejected_file_call_counterexample:
  "(UpdateVcl 6 (vcl_file ''edge.vcl'' ''sub vcl_hit {}''), Rejected (Other ''boom'')) \<in>
     set (calls (snd (task (scenario_deps (plan_upload_fails ''edge.vcl'' ''sub vcl_hit {}'')) ''vcl''
                        scenario_opts scenario_env store5))) \<and>
   (UpdateVcl 6 (vcl_file ''util.vcl'' ''sub vcl_miss {}''), Rejected (Other ''boom'')) \<in>
     set (calls (snd (task (scenario_deps (plan_upload_fails ''util.vcl'' ''sub vcl_miss {}'')) ''vcl''
                        scenario_opts scenario_env store5))) \<and>
   fst (task (scenario_deps (plan_upload_fails ''edge.vcl'' ''sub vcl_hit {}'')) ''vcl''
          scenario_opts scenario_env store5) =
   fst (task (scenario_deps (plan_upload_fails ''util.vcl'' ''sub vcl_miss {}'')) ''vcl''
          scenario_opts scenario_env store5) \<and>
   log (snd (task (scenario_deps (plan_upload_fails ''edge.vcl'' ''sub vcl_hit {}'')) ''vcl''
               scenario_opts scenario_env store5)) =
   log (snd (task (scenario_deps (plan_upload_fails ''util.vcl'' ''sub vcl_miss {}'')) ''vcl''
               scenario_opts scenario_env store5)) \<and>
   last (log (snd (task (scenario_deps (plan_upload_fails ''edge.vcl'' ''sub vcl_hit {}'')) ''vcl''
                     scenario_opts scenario_env store5))) =
     LogError (Stack (Foreign (Other ''boom'')))"
proof -
  have e: "vcl_file ''edge.vcl'' ''sub vcl_hit {}'' \<in> set new_files"
    and u: "vcl_file ''util.vcl'' ''sub vcl_miss {}'' \<in> set new_files"
    by (simp_all add: new_files_def)
  show ?thesis
    by (simp add: scenario_C_calls scenario_C_calls_util scenario_C_outcome scenario_C_log e u)
qed

section \<open>The service identifier\<close>




section \<open>The promise the task returns\<close>





end
